theory Spec2Isabelle
  imports Complex_Main "HOL-Library.Word"
begin

section \<open>JavaScript values, exceptions and completions\<close>

text \<open>
  A JavaScript string is its sequence of 16-bit code units. \<open>str\<close> reads an Isabelle string
  as the JavaScript string with the same code units (each below 256).
\<close>

type_synonym code_unit = "16 word"

type_synonym js_string = "code_unit list"

definition str :: "string \<Rightarrow> js_string" where
  "str s = map of_char s"

text \<open>
  A JavaScript number is an IEEE double: NaN, an infinity, or a finite value. \<open>Finite r\<close>
  is the finite double whose exact value is the rational \<open>r\<close>; the arithmetic of the source
  on such values is rounded to the nearest double by \<open>fl\<close> below.
\<close>

datatype js_number = NaN | PosInfinity | NegInfinity | Finite rat

text \<open>
  The values a caller can pass. \<open>JObject\<close> stands for an object, array or function that
  has no callable property \<open>replace\<close>.
\<close>

datatype js_value =
    JUndefined
  | JNull
  | JBoolean bool
  | JNumber js_number
  | JString js_string
  | JObject

datatype BankValidationError =
    INVALID_INPUT_TYPE
  | INVALID_IBAN_FORMAT
  | INVALID_BANK_CODE
  | INVALID_IBAN_CHECKSUM
  | INVALID_RIB_FORMAT
  | INVALID_RIB_LENGTH
  | INVALID_RIB_CHECKSUM
  | BANK_NOT_FOUND
  | INVALID_AMOUNT
  | BRANCH_NOT_FOUND

datatype exn = BankValidationException BankValidationError | TypeError

text \<open>The result of running a function body: a returned value or a thrown exception.\<close>

datatype 'a completion = Normal 'a | Throw exn

section \<open>The registry\<close>

text \<open>
  Modelled from the spec: the type \<open>BankDetails\<close> of \<open>types/bank\<close> and its branch records
  (section 3, BankRecord and BranchRecord). A pattern is the total predicate that the
  regular expression's \<open>test\<close> computes (a pattern without the flags \<open>g\<close> and \<open>y\<close>, so
  that \<open>test\<close> keeps no state between calls); \<open>branches\<close> is optional. The table
  \<open>MOROCCAN_BANKS\<close> of \<open>constants/banks\<close> is the parameter \<open>banks\<close> of every function below.
\<close>

record BranchDetails =
  branch_code :: js_string
  branch_swift :: js_string

record BankDetails =
  code :: js_string
  active :: bool
  ibanRegex :: "js_string \<Rightarrow> bool"
  ribLength :: nat
  ribRegex :: "js_string \<Rightarrow> bool"
  swift :: js_string
  branches :: "BranchDetails list option"

section \<open>String primitives\<close>

definition isWhitespace :: "code_unit \<Rightarrow> bool" where
  \<comment> \<open>the class \<open>\s\<close>, also the white space of \<open>trim\<close> and \<open>parseInt\<close>: U+0009 to U+000D,
      U+0020, U+00A0, U+1680, U+2000 to U+200A, U+2028, U+2029, U+202F, U+205F, U+3000
      and U+FEFF\<close>
  "isWhitespace c =
     (let n = unat c
      in (9 \<le> n \<and> n \<le> 13) \<or> n = 32 \<or> n = 160 \<or> n = 5760 \<or> (8192 \<le> n \<and> n \<le> 8202)
         \<or> n = 8232 \<or> n = 8233 \<or> n = 8239 \<or> n = 8287 \<or> n = 12288 \<or> n = 65279)"

definition isDigit :: "code_unit \<Rightarrow> bool" where
  \<comment> \<open>the class \<open>\d\<close>\<close>
  "isDigit c = (48 \<le> unat c \<and> unat c \<le> 57)"

definition digitValue :: "code_unit \<Rightarrow> nat" where
  "digitValue c = unat c - 48"

definition isAscii :: "code_unit \<Rightarrow> bool" where
  "isAscii c = (unat c < 128)"

definition toUpperCase_ascii :: "code_unit \<Rightarrow> code_unit" where
  "toUpperCase_ascii c = (if 97 \<le> unat c \<and> unat c \<le> 122 then c - 32 else c)"

definition toUpperCase :: "(js_string \<Rightarrow> js_string) \<Rightarrow> js_string \<Rightarrow> js_string" where
  \<comment> \<open>\<open>s.toUpperCase()\<close>. On a string of ASCII code units it maps \<open>a\<close> to \<open>z\<close> to \<open>A\<close> to
      \<open>Z\<close>; on any other string it is what the case mapping of the Unicode tables gives,
      and those tables are the parameter \<open>unicodeUpper\<close> (the built-in itself).\<close>
  "toUpperCase unicodeUpper s =
     (if list_all isAscii s then map toUpperCase_ascii s else unicodeUpper s)"

definition stripWhitespace :: "js_string \<Rightarrow> js_string" where
  \<comment> \<open>\<open>s.replace(/\s/g, '')\<close>\<close>
  "stripWhitespace s = filter (\<lambda>c. \<not> isWhitespace c) s"

definition stripWhitespaceHyphen :: "js_string \<Rightarrow> js_string" where
  \<comment> \<open>\<open>s.replace(/[\s-]/g, '')\<close>\<close>
  "stripWhitespaceHyphen s = filter (\<lambda>c. \<not> (isWhitespace c \<or> c = of_char CHR ''-'')) s"

definition substring :: "nat \<Rightarrow> nat \<Rightarrow> js_string \<Rightarrow> js_string" where
  \<comment> \<open>\<open>s.substring(a, b)\<close> for \<open>a \<le> b\<close>: indices beyond the end are clamped\<close>
  "substring a b s = take (b - a) (drop a s)"

definition trim :: "string \<Rightarrow> string" where
  \<comment> \<open>\<open>s.trim()\<close>, on a string written as an Isabelle string\<close>
  "trim s =
     rev (dropWhile (\<lambda>c. isWhitespace (of_char c))
       (rev (dropWhile (\<lambda>c. isWhitespace (of_char c)) s)))"

fun digits10 :: "nat \<Rightarrow> js_string" where
  "digits10 n =
     (if n < 10 then [of_nat (48 + n)] else digits10 (n div 10) @ [of_nat (48 + n mod 10)])"

declare digits10.simps [simp del]

definition toString :: "int \<Rightarrow> js_string" where
  \<comment> \<open>\<open>Number.prototype.toString\<close> on an integer\<close>
  "toString i =
     (if i < 0 then of_char CHR ''-'' # digits10 (nat (- i)) else digits10 (nat i))"

fun decimalValue :: "js_string \<Rightarrow> nat \<Rightarrow> nat" where
  "decimalValue [] acc = acc"
| "decimalValue (c # cs) acc = decimalValue cs (acc * 10 + digitValue c)"

definition parseInt10 :: "js_string \<Rightarrow> int option" where
  \<comment> \<open>\<open>parseInt(s, 10)\<close>: leading white space, an optional sign, the longest run of
      digits; \<open>None\<close> is NaN (no digit at that place)\<close>
  "parseInt10 s =
     (let s1 = dropWhile isWhitespace s;
          neg = (case s1 of c # _ \<Rightarrow> c = of_char CHR ''-'' | [] \<Rightarrow> False);
          s2 = (case s1 of
                  c # r \<Rightarrow> if c = of_char CHR ''-'' \<or> c = of_char CHR ''+'' then r else s1
                | [] \<Rightarrow> s1);
          ds = takeWhile isDigit s2
      in if ds = [] then None
         else Some (if neg then - int (decimalValue ds 0) else int (decimalValue ds 0)))"

definition parseInt_char :: "code_unit \<Rightarrow> nat option" where
  \<comment> \<open>\<open>parseInt(numeric[i])\<close> on a string of one code unit\<close>
  "parseInt_char c = (if isDigit c then Some (digitValue c) else None)"

section \<open>isValidIBAN\<close>

definition test_MA_d26 :: "js_string \<Rightarrow> bool" where
  \<comment> \<open>\<open>/^MA\d{26}$/.test(s)\<close>\<close>
  "test_MA_d26 s = (length s = 28 \<and> take 2 s = str ''MA'' \<and> list_all isDigit (drop 2 s))"

definition findBank :: "BankDetails list \<Rightarrow> js_string \<Rightarrow> BankDetails option" where
  \<comment> \<open>\<open>MOROCCAN_BANKS.find(b => b.code === bankCode && b.active)\<close>\<close>
  "findBank banks bankCode = find (\<lambda>b. code b = bankCode \<and> active b) banks"

definition numericOf :: "js_string \<Rightarrow> js_string" where
  \<comment> \<open>\<open>split('').map(c => /\d/.test(c) ? c : (c.charCodeAt(0) - 55).toString()).join('')\<close>\<close>
  "numericOf rearranged =
     concat (map (\<lambda>c. if isDigit c then [c] else toString (int (unat c) - 55)) rearranged)"

fun mod97_loop :: "js_string \<Rightarrow> nat option \<Rightarrow> nat option" where
  \<comment> \<open>the \<open>for\<close> loop over \<open>numeric\<close>; a remainder \<open>None\<close> is NaN\<close>
  "mod97_loop [] remainder = remainder"
| "mod97_loop (c # cs) remainder =
     mod97_loop cs
       (case (remainder, parseInt_char c) of
          (Some r, Some d) \<Rightarrow> Some ((r * 10 + d) mod 97)
        | _ \<Rightarrow> None)"

definition isValidIBAN_try ::
  "(js_string \<Rightarrow> js_string) \<Rightarrow> BankDetails list \<Rightarrow> js_value \<Rightarrow> bool completion" where
  "isValidIBAN_try unicodeUpper banks v =
     (case v of
        JString iban \<Rightarrow>
          (let cleanIBAN = toUpperCase unicodeUpper (stripWhitespace iban) in
           if \<not> test_MA_d26 cleanIBAN then Throw (BankValidationException INVALID_IBAN_FORMAT)
           else
             let bankCode = substring 4 7 cleanIBAN in
             case findBank banks bankCode of
               None \<Rightarrow> Throw (BankValidationException INVALID_BANK_CODE)
             | Some bank \<Rightarrow>
                 if \<not> ibanRegex bank cleanIBAN
                 then Throw (BankValidationException INVALID_IBAN_FORMAT)
                 else
                   let rearranged = drop 4 cleanIBAN @ take 4 cleanIBAN;
                       numeric = numericOf rearranged;
                       remainder = mod97_loop numeric (Some 0)
                   in if remainder \<noteq> Some 1
                      then Throw (BankValidationException INVALID_IBAN_CHECKSUM)
                      else Normal True)
      | _ \<Rightarrow> Throw (BankValidationException INVALID_INPUT_TYPE))"

definition isValidIBAN ::
  "(js_string \<Rightarrow> js_string) \<Rightarrow> BankDetails list \<Rightarrow> js_value \<Rightarrow> bool completion" where
  \<comment> \<open>the \<open>catch\<close> clause returns \<open>false\<close> for every exception\<close>
  "isValidIBAN unicodeUpper banks v =
     (case isValidIBAN_try unicodeUpper banks v of
        Normal b \<Rightarrow> Normal b
      | Throw e \<Rightarrow> Normal False)"

section \<open>isValidRIB\<close>

definition slice :: "nat \<Rightarrow> nat \<Rightarrow> js_string \<Rightarrow> js_string" where
  \<comment> \<open>\<open>s.slice(i, j)\<close> for \<open>0 \<le> i \<le> j\<close>\<close>
  "slice i j s = take (j - i) (drop i s)"

definition slice_0_neg2 :: "js_string \<Rightarrow> js_string" where
  \<comment> \<open>\<open>s.slice(0, -2)\<close>: all but the last two code units\<close>
  "slice_0_neg2 s = take (length s - 2) s"

definition slice_neg2 :: "js_string \<Rightarrow> js_string" where
  \<comment> \<open>\<open>s.slice(-2)\<close>: the last two code units (the whole string when it is shorter)\<close>
  "slice_neg2 s = drop (length s - 2) s"

definition js_rem :: "int \<Rightarrow> int \<Rightarrow> int" where
  \<comment> \<open>the operator \<open>%\<close> on integers: the sign of the dividend\<close>
  "js_rem a b = sgn a * (\<bar>a\<bar> mod \<bar>b\<bar>)"

definition numberToString :: "int option \<Rightarrow> js_string" where
  "numberToString n = (case n of None \<Rightarrow> str ''NaN'' | Some i \<Rightarrow> toString i)"

definition strictEq :: "int option \<Rightarrow> int option \<Rightarrow> bool" where
  \<comment> \<open>\<open>===\<close> on numbers: NaN equals nothing\<close>
  "strictEq a b = (case (a, b) of (Some x, Some y) \<Rightarrow> x = y | _ \<Rightarrow> False)"

function chunks_loop :: "js_string \<Rightarrow> nat \<Rightarrow> int option list \<Rightarrow> int option list" where
  "chunks_loop payload i chunks =
     (if i < length payload
      then chunks_loop payload (i + 7) (chunks @ [parseInt10 (slice i (i + 7) payload)])
      else chunks)"
  by pat_completeness auto
termination
  by (relation "measure (\<lambda>(payload, i, chunks). length payload - i)") auto

declare chunks_loop.simps [simp del]

fun remainder_loop :: "int option list \<Rightarrow> int option \<Rightarrow> int option" where
  "remainder_loop [] remainder = remainder"
| "remainder_loop (chunk # cs) remainder =
     remainder_loop cs
       (case (remainder, chunk) of
          (Some r, Some c) \<Rightarrow> Some (js_rem (r * 10 ^ length (numberToString chunk) + c) 97)
        | _ \<Rightarrow> None)"

definition expectedKeyOf :: "js_string \<Rightarrow> int option" where
  "expectedKeyOf payload =
     (case remainder_loop (chunks_loop payload 0 []) (Some 0) of
        Some remainder \<Rightarrow> Some (js_rem (97 - remainder) 97)
      | None \<Rightarrow> None)"

definition isValidRIB_try :: "BankDetails list \<Rightarrow> js_value \<Rightarrow> bool completion" where
  "isValidRIB_try banks v =
     (case v of
        JString rib \<Rightarrow>
          (let cleanRIB = stripWhitespaceHyphen rib;
               bankCode = substring 0 3 cleanRIB
           in case findBank banks bankCode of
                None \<Rightarrow> Throw (BankValidationException BANK_NOT_FOUND)
              | Some bank \<Rightarrow>
                  if length cleanRIB \<noteq> ribLength bank
                  then Throw (BankValidationException INVALID_RIB_LENGTH)
                  else if \<not> ribRegex bank cleanRIB
                  then Throw (BankValidationException INVALID_RIB_FORMAT)
                  else
                    let payload = slice_0_neg2 cleanRIB;
                        actualKey = parseInt10 (slice_neg2 cleanRIB);
                        expectedKey = expectedKeyOf payload
                    in if \<not> strictEq expectedKey actualKey
                       then Throw (BankValidationException INVALID_RIB_CHECKSUM)
                       else Normal True)
      | _ \<Rightarrow> Throw TypeError)"

definition isValidRIB :: "BankDetails list \<Rightarrow> js_value \<Rightarrow> bool completion" where
  "isValidRIB banks v =
     (case isValidRIB_try banks v of Normal b \<Rightarrow> Normal b | Throw e \<Rightarrow> Normal False)"

section \<open>getBankDetails and getSwiftCode\<close>

definition getBankDetails_try :: "BankDetails list \<Rightarrow> js_value \<Rightarrow> BankDetails completion" where
  "getBankDetails_try banks v =
     (case v of
        JString c \<Rightarrow>
          (let cleanCode = stripWhitespaceHyphen c;
               bankCode = (if take 2 cleanCode = str ''MA'' then substring 4 7 cleanCode
                           else substring 0 3 cleanCode)
           in case findBank banks bankCode of
                None \<Rightarrow> Throw (BankValidationException BANK_NOT_FOUND)
              | Some bank \<Rightarrow> Normal bank)
      | _ \<Rightarrow> Throw TypeError)"

definition getBankDetails :: "BankDetails list \<Rightarrow> js_value \<Rightarrow> BankDetails option completion" where
  \<comment> \<open>\<open>None\<close> is \<open>undefined\<close>\<close>
  "getBankDetails banks v =
     (case getBankDetails_try banks v of Normal b \<Rightarrow> Normal (Some b) | Throw e \<Rightarrow> Normal None)"

definition truthy :: "js_value \<Rightarrow> bool" where
  "truthy v =
     (case v of
        JUndefined \<Rightarrow> False
      | JNull \<Rightarrow> False
      | JBoolean b \<Rightarrow> b
      | JNumber n \<Rightarrow> n \<noteq> NaN \<and> n \<noteq> Finite 0
      | JString s \<Rightarrow> s \<noteq> []
      | JObject \<Rightarrow> True)"

definition getSwiftCode_try ::
  "BankDetails list \<Rightarrow> js_value \<Rightarrow> js_value \<Rightarrow> js_string completion" where
  \<comment> \<open>an omitted \<open>branch\<close> is \<open>JUndefined\<close>\<close>
  "getSwiftCode_try banks c branch =
     (case getBankDetails banks c of
        Throw e \<Rightarrow> Throw e
      | Normal None \<Rightarrow> Throw (BankValidationException BANK_NOT_FOUND)
      | Normal (Some bank) \<Rightarrow>
          (case (if truthy branch then branches bank else None) of
             Some bs \<Rightarrow>
               (case find (\<lambda>b. JString (branch_code b) = branch) bs of
                  None \<Rightarrow> Throw (BankValidationException BRANCH_NOT_FOUND)
                | Some branchDetails \<Rightarrow> Normal (branch_swift branchDetails))
           | None \<Rightarrow> Normal (swift bank)))"

definition getSwiftCode ::
  "BankDetails list \<Rightarrow> js_value \<Rightarrow> js_value \<Rightarrow> js_string option completion" where
  "getSwiftCode banks c branch =
     (case getSwiftCode_try banks c branch of
        Normal s \<Rightarrow> Normal (Some s)
      | Throw e \<Rightarrow> Normal None)"

section \<open>Arithmetic on doubles\<close>

text \<open>
  The operations \<open>-\<close>, \<open>*\<close> and \<open>/\<close> of the source return the double nearest to the exact
  result, a tie going to the even significand. \<open>fl\<close> is that rounding on a rational
  below the overflow threshold, the only case the source meets: the significand has 53
  bits and the least exponent of a unit in the last place is -1074.
\<close>

fun bitLength :: "nat \<Rightarrow> nat" where
  "bitLength n = (if n = 0 then 0 else Suc (bitLength (n div 2)))"

declare bitLength.simps [simp del]

definition pow2 :: "int \<Rightarrow> rat" where
  "pow2 e = (if 0 \<le> e then 2 ^ nat e else 1 / 2 ^ nat (- e))"

definition binaryExponent :: "rat \<Rightarrow> int" where
  \<comment> \<open>for \<open>0 < a\<close>, the \<open>e\<close> with \<open>2 ^ e \<le> a < 2 ^ (e + 1)\<close>\<close>
  "binaryExponent a =
     (if 1 \<le> a then int (bitLength (nat \<lfloor>a\<rfloor>)) - 1
      else - int (bitLength (nat (\<lceil>1 / a\<rceil> - 1))))"

definition roundHalfEven :: "rat \<Rightarrow> int" where
  "roundHalfEven y =
     (let f = \<lfloor>y\<rfloor>; d = y - of_int f
      in if d < 1 / 2 then f else if 1 / 2 < d then f + 1 else if even f then f else f + 1)"

definition fl :: "rat \<Rightarrow> rat" where
  "fl x =
     (if x = 0 then 0
      else
        let e = max (binaryExponent \<bar>x\<bar> - 52) (- 1074);
            m = roundHalfEven (\<bar>x\<bar> / pow2 e)
        in sgn x * of_int m * pow2 e)"

section \<open>madToWords\<close>

definition units :: "string list" where
  "units = ['''', ''un'', ''deux'', ''trois'', ''quatre'', ''cinq'', ''six'', ''sept'', ''huit'',
            ''neuf'']"

definition teens :: "string list" where
  "teens = [''dix'', ''onze'', ''douze'', ''treize'', ''quatorze'', ''quinze'', ''seize'',
            ''dix-sept'', ''dix-huit'', ''dix-neuf'']"

definition tens :: "string list" where
  "tens = ['''', ''dix'', ''vingt'', ''trente'', ''quarante'', ''cinquante'', ''soixante'',
           ''soixante-dix'', ''quatre-vingt'', ''quatre-vingt-dix'']"

definition elemAt :: "string list \<Rightarrow> int \<Rightarrow> string" where
  \<comment> \<open>\<open>xs[k]\<close> inside a string concatenation: an index out of range reads \<open>undefined\<close>\<close>
  "elemAt xs k = (if 0 \<le> k \<and> nat k < length xs then xs ! nat k else ''undefined'')"

definition convertLessThanThousand :: "int \<Rightarrow> string" where
  \<comment> \<open>\<open>n\<close> is a non-negative integer; \<open>n1\<close> is \<open>n\<close> after \<open>n %= 100\<close>. The rounded quotients
      \<open>Math.floor(n / 100)\<close> and \<open>Math.floor(n / 10)\<close> equal \<open>n div 100\<close> and \<open>n div 10\<close> where
      they are below 10, and are at least 10 (the index reads \<open>undefined\<close>) where those are.\<close>
  "convertLessThanThousand n =
     (let hundreds =
            (if n \<ge> 100
             then (if n \<ge> 200 then elemAt units (n div 100) @ '' '' else '''') @ ''cent''
             else '''');
          n1 = (if n \<ge> 100 then n mod 100 else n);
          result = (if n \<ge> 100 \<and> n1 > 0 then hundreds @ '' '' else hundreds)
      in result @
         (if n1 \<ge> 80 \<and> n1 < 100
          then ''quatre-vingt'' @ (if n1 = 80 then '''' else ''-'' @ elemAt units (n1 - 80))
          else if n1 \<ge> 20
          then elemAt tens (n1 div 10) @ (if n1 mod 10 > 0 then ''-'' @ elemAt units (n1 mod 10) else '''')
          else if n1 \<ge> 10 then elemAt teens (n1 - 10)
          else if n1 > 0 then elemAt units n1
          else ''''))"

definition Math_round :: "rat \<Rightarrow> int" where
  \<comment> \<open>\<open>Math.round\<close> on a double: the nearest integer, a half rounds up (exact)\<close>
  "Math_round x = \<lfloor>x + 1 / 2\<rfloor>"

definition wholeOf :: "rat \<Rightarrow> int" where
  \<comment> \<open>\<open>Math.floor(Math.abs(amount))\<close>, both exact on a double\<close>
  "wholeOf amount = \<lfloor>\<bar>amount\<bar>\<rfloor>"

definition centsOf :: "rat \<Rightarrow> int" where
  \<comment> \<open>\<open>Math.round((amount - whole) * 100)\<close> on the absolute amount: the difference and
      the product are rounded to doubles\<close>
  "centsOf amount = Math_round (fl (fl (\<bar>amount\<bar> - of_int (wholeOf amount)) * 100))"

definition wholeWords :: "int \<Rightarrow> string" where
  \<comment> \<open>the three appends for the millions, the thousands and the rest, inside the block
      \<open>if (whole > 0) { ... }\<close>\<close>
  "wholeWords whole =
     (let millions = \<lfloor>fl (of_int whole / 1000000)\<rfloor>;
          thousands = \<lfloor>fl (of_int (whole mod 1000000) / 1000)\<rfloor>;
          remainder = whole mod 1000
      in (if millions > 0
          then convertLessThanThousand millions @ '' million'' @
               (if millions > 1 then ''s '' else '' '')
          else '''') @
         (if thousands > 0
          then (if thousands = 1 then ''mille ''
                else convertLessThanThousand thousands @ '' mille '')
          else '''') @
         (if remainder > 0 then convertLessThanThousand remainder else ''''))"

definition dirhamsPart :: "int \<Rightarrow> string" where
  \<comment> \<open>what the block \<open>if (whole > 0) { ... }\<close> appends to the empty \<open>result\<close>\<close>
  "dirhamsPart whole =
     (if whole > 0
      then wholeWords whole @ '' dirham'' @ (if whole \<noteq> 1 then ''s'' else '''')
      else '''')"

definition centimesPart :: "int \<Rightarrow> int \<Rightarrow> string" where
  \<comment> \<open>what the block \<open>if (cents > 0) { ... }\<close> appends\<close>
  "centimesPart whole cents =
     (if cents > 0
      then (if whole > 0 then '' et '' else '''') @
           convertLessThanThousand cents @ '' centime'' @ (if cents \<noteq> 1 then ''s'' else '''')
      else '''')"

definition zero_dirhams :: string where
  \<comment> \<open>the literal of the source for a zero amount; its second code unit is U+00E9\<close>
  "zero_dirhams = ''z'' @ [CHR 0xE9] @ ''ro dirhams''"

definition madToWords_finite :: "rat \<Rightarrow> string" where
  "madToWords_finite amount =
     (if amount = 0 then zero_dirhams
      else
        let isNegative = amount < 0;
            whole = wholeOf amount;
            cents = centsOf amount;
            result = dirhamsPart whole @ centimesPart whole cents
        in (if isNegative then ''moins '' else '''') @ trim result)"

definition madToWords_infinite :: "bool \<Rightarrow> string" where
  \<comment> \<open>\<open>amount\<close> is an infinity: \<open>whole\<close> and \<open>millions\<close> are \<open>Infinity\<close>, while \<open>cents\<close>,
      \<open>thousands\<close> and \<open>remainder\<close> are NaN, on which every comparison is false.
      \<open>convertLessThanThousand(Infinity)\<close> reads \<open>units[Infinity]\<close>, which is \<open>undefined\<close>,
      appends \<open>cent\<close> and leaves \<open>n\<close> NaN, so it returns \<open>undefined cent\<close>.\<close>
  "madToWords_infinite isNegative =
     (let result = ''undefined cent'' @ '' million'' @ ''s '' @ '' dirham'' @ ''s''
      in (if isNegative then ''moins '' else '''') @ trim result)"

definition madToWords_try :: "js_value \<Rightarrow> string completion" where
  "madToWords_try v =
     (case v of
        JNumber NaN \<Rightarrow> Throw (BankValidationException INVALID_AMOUNT)
      | JNumber PosInfinity \<Rightarrow> Normal (madToWords_infinite False)
      | JNumber NegInfinity \<Rightarrow> Normal (madToWords_infinite True)
      | JNumber (Finite amount) \<Rightarrow> Normal (madToWords_finite amount)
      | _ \<Rightarrow> Throw (BankValidationException INVALID_AMOUNT))"

definition madToWords :: "js_value \<Rightarrow> string completion" where
  \<comment> \<open>both branches of the \<open>catch\<close> clause return the same sentence\<close>
  "madToWords v =
     (case madToWords_try v of
        Normal s \<Rightarrow> Normal s
      | Throw e \<Rightarrow> Normal ''erreur de conversion'')"

section \<open>The checksums as the specification words them\<close>

text \<open>
  These definitions follow the words of the specification, not the source; the theorems
  below compare them with the functions of the source.
\<close>

definition spec_charDigits :: "code_unit \<Rightarrow> nat list" where
  \<comment> \<open>a digit maps to itself, a letter to the two decimal digits of its ordinal minus 55\<close>
  "spec_charDigits c =
     (if isDigit c then [digitValue c]
      else [(unat c - 55) div 10, (unat c - 55) mod 10])"

definition spec_mod97 :: "nat list \<Rightarrow> nat" where
  \<comment> \<open>digit by digit, \<open>remainder = (remainder * 10 + digit) mod 97\<close>\<close>
  "spec_mod97 ds = foldl (\<lambda>remainder digit. (remainder * 10 + digit) mod 97) 0 ds"

definition spec_ibanRemainder :: "js_string \<Rightarrow> nat" where
  \<comment> \<open>the first four characters moved to the end, then mapped and folded\<close>
  "spec_ibanRemainder c = spec_mod97 (concat (map spec_charDigits (drop 4 c @ take 4 c)))"

fun spec_chunks :: "js_string \<Rightarrow> js_string list" where
  \<comment> \<open>left to right, chunks of at most 7 characters\<close>
  "spec_chunks s = (if s = [] then [] else take 7 s # spec_chunks (drop 7 s))"

declare spec_chunks.simps [simp del]

fun spec_number :: "nat list \<Rightarrow> nat" where
  \<comment> \<open>the integer that decimal digits spell: each digit times the power of ten of its place\<close>
  "spec_number [] = 0"
| "spec_number (d # ds) = d * 10 ^ length ds + spec_number ds"

definition spec_decimalInteger :: "js_string \<Rightarrow> nat option" where
  \<comment> \<open>a string parsed as a decimal integer: the integer that its leading digits spell,
      after a plus sign if there is one; \<open>None\<close> when it has no leading digit\<close>
  "spec_decimalInteger s =
     (let ds = takeWhile isDigit (if s \<noteq> [] \<and> hd s = of_char CHR ''+'' then tl s else s)
      in if ds = [] then None else Some (spec_number (map digitValue ds)))"

fun spec_digitCount :: "nat \<Rightarrow> nat" where
  \<comment> \<open>the number of digits of the decimal representation of an integer\<close>
  "spec_digitCount n = (if n < 10 then 1 else Suc (spec_digitCount (n div 10)))"

declare spec_digitCount.simps [simp del]

definition spec_expectedKey :: "nat list \<Rightarrow> nat" where
  "spec_expectedKey chunks =
     (97 - foldl (\<lambda>remainder chunk. (remainder * 10 ^ spec_digitCount chunk + chunk) mod 97)
             0 chunks) mod 97"

definition spec_ribKeyMatches :: "js_string \<Rightarrow> bool" where
  \<comment> \<open>the key recomputed from all characters but the last two equals the last two
      characters parsed in base 10; a chunk or a key that does not parse matches nothing\<close>
  "spec_ribKeyMatches cleanRIB =
     (case (those (map spec_decimalInteger (spec_chunks (slice_0_neg2 cleanRIB))),
            spec_decimalInteger (slice_neg2 cleanRIB)) of
        (Some chunks, Some key) \<Rightarrow> spec_expectedKey chunks = key
      | _ \<Rightarrow> False)"

section \<open>Notions used in the proofs\<close>

definition ibanChar :: "code_unit \<Rightarrow> bool" where
  \<comment> \<open>the characters of a string that matches \<open>MA\<close> and 26 digits\<close>
  "ibanChar c = (isDigit c \<or> c = of_char CHR ''M'' \<or> c = of_char CHR ''A'')"

definition decimalOf :: "nat list \<Rightarrow> nat" where
  \<comment> \<open>the number that a list of decimal digits spells\<close>
  "decimalOf ds = foldl (\<lambda>v d. v * 10 + d) 0 ds"

section \<open>A registry to run the functions on\<close>

definition bankA :: BankDetails where
  "bankA = \<lparr>code = str ''011'', active = True, ibanRegex = test_MA_d26, ribLength = 24,
     ribRegex = list_all isDigit, swift = str ''BMCEMAMC'',
     branches = Some [\<lparr>branch_code = str ''780'', branch_swift = str ''BMCEMAMCRBT''\<rparr>]\<rparr>"

definition bankB :: BankDetails where
  "bankB = \<lparr>code = str ''007'', active = True, ibanRegex = test_MA_d26, ribLength = 24,
     ribRegex = list_all isDigit, swift = str ''BCMAMAMC'', branches = None\<rparr>"

definition bankC :: BankDetails where
  "bankC = \<lparr>code = str ''999'', active = False, ibanRegex = test_MA_d26, ribLength = 24,
     ribRegex = list_all isDigit, swift = str ''XXXXMAMC'', branches = None\<rparr>"

definition exampleBanks :: "BankDetails list" where
  "exampleBanks = [bankA, bankB, bankC]"

definition asciiOnly :: "js_string \<Rightarrow> js_string" where
  \<comment> \<open>a stand-in for the Unicode tables that maps no character beyond ASCII\<close>
  "asciiOnly s = s"



section \<open>Rounding to doubles\<close>

lemma bitLength_bounds:
  "0 < n \<Longrightarrow> 2 ^ (bitLength n - 1) \<le> n \<and> n < 2 ^ bitLength n"
proof (induction n rule: bitLength.induct)
  case (1 n)
  show ?case
  proof (cases "n div 2 = 0")
    case True
    with "1.prems" have n1: "n = Suc 0" by auto
    have "bitLength (Suc 0) = Suc 0"
      by (simp add: bitLength.simps [of "Suc 0"] bitLength.simps [of 0])
    then show ?thesis
      by (simp add: n1)
  next
    case False
    then have pos: "0 < n div 2" by simp
    from "1.prems" have n: "n \<noteq> 0" by simp
    have b: "bitLength n = Suc (bitLength (n div 2))"
      using n by (simp add: bitLength.simps [of n])
    have "0 < bitLength (n div 2)"
      using pos by (simp add: bitLength.simps [of "n div 2"])
    then obtain k where k: "bitLength (n div 2) = Suc k"
      by (cases "bitLength (n div 2)") simp_all
    from "1.IH" [OF n pos] k have "2 ^ k \<le> n div 2" and "n div 2 < 2 * 2 ^ k"
      by simp_all
    then have "2 * 2 ^ k \<le> n" and "n < 2 * (2 * 2 ^ k)"
      by simp_all
    then show ?thesis
      by (simp add: b k)
  qed
qed

lemma pow2_powi: "pow2 e = 2 powi e"
  by (simp add: pow2_def power_int_def inverse_eq_divide power_one_over)

lemma pow2_pos: "0 < pow2 e"
  by (simp add: pow2_powi)

lemma pow2_add: "pow2 (a + b) = pow2 a * pow2 b"
  by (simp add: pow2_powi power_int_add)

lemma pow2_mono: "a \<le> b \<Longrightarrow> pow2 a \<le> pow2 b"
  by (simp add: pow2_powi power_int_increasing)

lemma pow2_less_imp: "pow2 a < pow2 b \<Longrightarrow> a < b"
  using pow2_mono [of b a] by (cases "a < b") simp_all

lemma pow2_nat: "pow2 (int n) = 2 ^ n"
  by (simp add: pow2_def)

lemma pow2_neg_nat: "pow2 (- int n) = 1 / 2 ^ n"
  by (simp add: pow2_powi power_int_minus inverse_eq_divide)

lemma binaryExponent_bounds:
  assumes "0 < a"
  shows "pow2 (binaryExponent a) \<le> a \<and> a < pow2 (binaryExponent a + 1)"
proof (cases "1 \<le> a")
  case True
  define n where "n = nat \<lfloor>a\<rfloor>"
  from True have fa: "1 \<le> \<lfloor>a\<rfloor>" by simp
  then have n: "0 < n" and nf: "int n = \<lfloor>a\<rfloor>" by (simp_all add: n_def)
  from n obtain k where k: "bitLength n = Suc k"
    by (cases "bitLength n") (simp_all add: bitLength.simps [of n])
  from bitLength_bounds [OF n] k have lo: "2 ^ k \<le> n" and hi: "n < 2 ^ Suc k"
    by simp_all
  have e: "binaryExponent a = int k"
    using True by (simp add: binaryExponent_def n_def [symmetric] k)
  have "(2::rat) ^ k \<le> of_int (int n)"
    using lo by (metis of_int_of_nat_eq of_nat_le_iff of_nat_numeral of_nat_power)
  also have "\<dots> \<le> a"
    unfolding nf by simp
  finally have 1: "pow2 (int k) \<le> a"
    by (simp add: pow2_nat)
  have "int n + 1 \<le> 2 ^ Suc k"
    using hi by (metis Suc_leI of_nat_Suc of_nat_le_iff of_nat_numeral of_nat_power add.commute)
  then have "(of_int (int n + 1) :: rat) \<le> of_int (2 ^ Suc k)"
    by (simp only: of_int_le_iff)
  moreover have "a < of_int (int n + 1)"
    unfolding nf by linarith
  ultimately have "a < 2 ^ Suc k"
    by simp
  then have 2: "a < pow2 (int k + 1)"
    using pow2_nat [of "Suc k"] by (simp add: add.commute)
  from 1 2 show ?thesis
    by (simp add: e)
next
  case False
  with assms have a1: "a < 1" by simp
  define c where "c = \<lceil>1 / a\<rceil>"
  define m where "m = nat (c - 1)"
  have "1 < 1 / a"
    using assms a1 by simp
  then have c2: "2 \<le> c"
    unfolding c_def by (metis not_less of_int_1 one_add_one zle_add1_eq_le less_ceiling_iff)
  then have m: "0 < m" and mc: "int m = c - 1"
    by (simp_all add: m_def)
  from m obtain k where k: "bitLength m = Suc k"
    by (cases "bitLength m") (simp_all add: bitLength.simps [of m])
  from bitLength_bounds [OF m] k have lo: "2 ^ k \<le> m" and hi: "m < 2 ^ Suc k"
    by simp_all
  have e: "binaryExponent a = - int (Suc k)"
    using False by (simp add: binaryExponent_def c_def [symmetric] m_def [symmetric] k)
  have "1 / a \<le> of_int c"
    unfolding c_def by simp
  also have "of_int c = (of_int (int m + 1) :: rat)"
    using mc by simp
  also have "\<dots> \<le> of_int (2 ^ Suc k)"
  proof -
    have "int m + 1 \<le> 2 ^ Suc k"
      using hi by (metis Suc_leI of_nat_Suc of_nat_le_iff of_nat_numeral of_nat_power add.commute)
    then show ?thesis
      by (simp only: of_int_le_iff)
  qed
  finally have "1 / a \<le> 2 ^ Suc k"
    by simp
  then have "1 / 2 ^ Suc k \<le> a"
    using assms by (simp add: field_simps)
  then have 1: "pow2 (- int (Suc k)) \<le> a"
    by (simp only: pow2_neg_nat)
  have "of_int c - 1 < 1 / a"
    unfolding c_def by linarith
  moreover have "(2::rat) ^ k \<le> of_int c - 1"
  proof -
    have "(2::int) ^ k \<le> int m"
      using lo by (metis of_nat_le_iff of_nat_numeral of_nat_power)
    then have "(of_int (2 ^ k) :: rat) \<le> of_int (int m)"
      by (simp only: of_int_le_iff)
    then show ?thesis
      using mc by simp
  qed
  ultimately have "2 ^ k < 1 / a"
    by simp
  then have "a < 1 / 2 ^ k"
    using assms by (simp add: field_simps)
  then have 2: "a < pow2 (- int (Suc k) + 1)"
    using pow2_neg_nat [of k] by simp
  from 1 2 show ?thesis
    by (simp add: e)
qed

lemma binaryExponent_unique:
  assumes "0 < a" and "pow2 e \<le> a" and "a < pow2 (e + 1)"
  shows "binaryExponent a = e"
proof -
  from binaryExponent_bounds [OF assms(1)]
  have lo: "pow2 (binaryExponent a) \<le> a" and hi: "a < pow2 (binaryExponent a + 1)"
    by simp_all
  have "pow2 e < pow2 (binaryExponent a + 1)"
    using assms(2) hi by simp
  then have "e < binaryExponent a + 1"
    by (rule pow2_less_imp)
  moreover have "pow2 (binaryExponent a) < pow2 (e + 1)"
    using lo assms(3) by simp
  then have "binaryExponent a < e + 1"
    by (rule pow2_less_imp)
  ultimately show ?thesis
    by simp
qed

lemma roundHalfEven_near: "\<bar>of_int (roundHalfEven y) - y\<bar> \<le> 1 / 2"
proof -
  have "of_int \<lfloor>y\<rfloor> \<le> y" and "y < of_int \<lfloor>y\<rfloor> + 1"
    by linarith+
  then show ?thesis
    by (auto simp add: roundHalfEven_def Let_def)
qed

lemma roundHalfEven_of_int: "roundHalfEven (of_int m) = m"
  by (simp add: roundHalfEven_def)

lemma fl_normal:
  assumes "0 < a" and "pow2 e \<le> a" and "a < pow2 (e + 1)" and "- 1022 \<le> e"
  shows "fl a = of_int (roundHalfEven (a / pow2 (e - 52))) * pow2 (e - 52)"
proof -
  have "binaryExponent a = e"
    using assms(1,2,3) by (rule binaryExponent_unique)
  moreover have "max (e - 52) (- 1074) = e - 52"
    using assms(4) by simp
  ultimately show ?thesis
    using assms(1) by (simp add: fl_def Let_def)
qed

lemma fl_exact:
  assumes "0 < a" and "pow2 e \<le> a" and "a < pow2 (e + 1)" and "- 1022 \<le> e"
    and "a / pow2 (e - 52) = of_int m"
  shows "fl a = a"
proof -
  have "fl a = of_int m * pow2 (e - 52)"
    using fl_normal [OF assms(1-4)] by (simp add: assms(5) roundHalfEven_of_int)
  also have "\<dots> = a"
    using assms(5) pow2_pos [of "e - 52"] by (simp add: field_simps)
  finally show ?thesis .
qed

lemma fl_error:
  assumes "0 < a" and "pow2 e \<le> a" and "a < pow2 (e + 1)" and "- 1022 \<le> e"
  shows "\<bar>fl a - a\<bar> \<le> pow2 (e - 53)"
proof -
  let ?u = "pow2 (e - 52)"
  have u: "0 < ?u" by (rule pow2_pos)
  have "fl a - a = (of_int (roundHalfEven (a / ?u)) - a / ?u) * ?u"
    using fl_normal [OF assms] u by (simp add: field_simps)
  then have "\<bar>fl a - a\<bar> = \<bar>of_int (roundHalfEven (a / ?u)) - a / ?u\<bar> * ?u"
    using u by (simp add: abs_mult)
  also have "\<dots> \<le> 1 / 2 * ?u"
    using roundHalfEven_near [of "a / ?u"] u by (simp add: mult_right_mono)
  also have "1 / 2 * ?u = pow2 (e - 53)"
    using pow2_add [of "- 1" "e - 52"] by (simp add: pow2_def)
  finally show ?thesis .
qed

lemma floor_fl_div:
  assumes "0 \<le> w" and "w < 2 ^ 53" and "0 < k" and "k \<le> 1000000"
  shows "\<lfloor>fl (of_int w / of_int k)\<rfloor> = w div k"
proof (cases "w = 0")
  case True
  then show ?thesis by (simp add: fl_def)
next
  case False
  with assms(1) have w: "0 < w" by simp
  define x :: rat where "x = of_int w / of_int k"
  define e where "e = binaryExponent x"
  define q r where "q = w div k" and "r = w mod k"
  have kr: "(0::rat) < of_int k" using assms(3) by simp
  have x: "0 < x" using w assms(3) by (simp add: x_def)
  from binaryExponent_bounds [OF x] have lo: "pow2 e \<le> x" and hi: "x < pow2 (e + 1)"
    by (simp_all add: e_def)
  have "(1::rat) \<le> of_int w" using w by simp
  then have "1 / of_int k \<le> x"
    using kr by (simp add: x_def divide_right_mono)
  moreover have "pow2 (- 20) \<le> 1 / of_int k"
  proof -
    have "(of_int k :: rat) \<le> 1000000" using assms(4) by simp
    then have "(1::rat) / 1000000 \<le> 1 / of_int k"
      using kr by (simp add: frac_le)
    then show ?thesis by (simp add: pow2_def)
  qed
  ultimately have "pow2 (- 20) < pow2 (e + 1)"
    using hi by simp
  then have e20: "- 20 < e + 1" by (rule pow2_less_imp)
  then have e: "- 1022 \<le> e" by simp
  have "pow2 e < pow2 53"
  proof -
    have "x \<le> of_int w"
      using kr w assms(3) by (simp add: x_def field_simps mult_le_cancel_left1)
    moreover have "(of_int w :: rat) < 2 ^ 53" using assms(2) by simp
    ultimately show ?thesis using lo by (simp add: pow2_def)
  qed
  then have e53: "e < 53" by (rule pow2_less_imp)
  have err: "\<bar>fl x - x\<bar> < 1 / of_int k"
  proof -
    have "\<bar>fl x - x\<bar> \<le> pow2 (e - 53)"
      using x lo hi e by (rule fl_error)
    also have "pow2 (e - 53) = pow2 e * (1 / 2 ^ 53)"
      using pow2_add [of e "- 53"] by (simp add: pow2_def)
    also have "\<dots> \<le> x * (1 / 2 ^ 53)"
      using lo by (simp add: mult_right_mono)
    also have "\<dots> = (of_int w / 2 ^ 53) * (1 / of_int k)"
      by (simp add: x_def)
    also have "\<dots> < 1 * (1 / of_int k)"
    proof (rule mult_strict_right_mono)
      have "(of_int w :: rat) < 2 ^ 53" using assms(2) by simp
      then show "(of_int w :: rat) / 2 ^ 53 < 1" by simp
      show "(0::rat) < 1 / of_int k" using kr by simp
    qed
    finally show ?thesis by simp
  qed
  have wqr: "w = q * k + r" and r0: "0 \<le> r" and rk: "r < k"
    using assms(3) by (simp_all add: q_def r_def)
  have xq: "x = of_int q + of_int r / of_int k"
    using kr by (simp add: x_def wqr field_simps)
  have upper: "fl x < of_int q + 1"
  proof -
    have "fl x < x + 1 / of_int k" using err by linarith
    also have "\<dots> = of_int q + of_int (r + 1) / of_int k"
      by (simp add: xq add_divide_distrib)
    also have "of_int (r + 1) / (of_int k :: rat) \<le> 1"
      using rk kr by (simp add: field_simps)
    finally show ?thesis by simp
  qed
  have lower: "of_int q \<le> fl x"
  proof (cases "r = 0")
    case True
    then have xi: "x = of_int q" by (simp add: xq)
    have "pow2 (52 - e) = 2 ^ nat (52 - e)"
      using e53 by (simp add: pow2_def)
    moreover have "x / pow2 (e - 52) = x * pow2 (52 - e)"
      using pow2_add [of "e - 52" "52 - e"] pow2_pos [of "e - 52"]
      by (simp add: field_simps pow2_def)
    ultimately have "x / pow2 (e - 52) = of_int (q * 2 ^ nat (52 - e))"
      by (simp add: xi)
    with x lo hi e have "fl x = x" by (rule fl_exact)
    then show ?thesis by (simp add: xi)
  next
    case False
    with r0 have "1 \<le> r" by simp
    then have "(1::rat) \<le> of_int r" by simp
    then have "1 / of_int k \<le> of_int r / (of_int k :: rat)"
      using kr by (simp add: divide_right_mono)
    moreover have "x - 1 / of_int k < fl x" using err by linarith
    ultimately show ?thesis by (simp add: xq)
  qed
  from lower upper have "\<lfloor>fl x\<rfloor> = q"
    by (simp add: floor_unique)
  then show ?thesis
    by (simp add: x_def q_def)
qed

section \<open>Normalisation\<close>


lemma toUpperCase_ascii_other:
  "\<not> (97 \<le> unat c \<and> unat c \<le> 122) \<Longrightarrow> toUpperCase_ascii c = c"
  unfolding toUpperCase_ascii_def by (rule if_not_P)









lemma upper_m_a:
  "toUpperCase_ascii (of_char CHR ''m'') = of_char CHR ''M''"
  "toUpperCase_ascii (of_char CHR ''a'') = of_char CHR ''A''"
  "toUpperCase_ascii (of_char CHR ''x'') = of_char CHR ''X''"
  by (simp_all add: toUpperCase_ascii_def)










section \<open>getBankDetails and getSwiftCode: properties\<close>

lemma getBankDetails_A: "getBankDetails exampleBanks (JString (str ''011'')) = Normal (Some bankA)"
  by (simp add: getBankDetails_def getBankDetails_try_def findBank_def exampleBanks_def
      bankA_def stripWhitespaceHyphen_def isWhitespace_def substring_def str_def)

lemma getBankDetails_B: "getBankDetails exampleBanks (JString (str ''007'')) = Normal (Some bankB)"
  by (simp add: getBankDetails_def getBankDetails_try_def findBank_def exampleBanks_def
      bankA_def bankB_def stripWhitespaceHyphen_def isWhitespace_def substring_def str_def)

lemma getBankDetails_C: "getBankDetails exampleBanks (JString (str ''999'')) = Normal None"
  by (simp add: getBankDetails_def getBankDetails_try_def findBank_def exampleBanks_def
      bankA_def bankB_def bankC_def stripWhitespaceHyphen_def isWhitespace_def substring_def str_def)

lemma getBankDetails_active:
  "getBankDetails banks c = Normal (Some bank) \<Longrightarrow> active bank \<and> bank \<in> set banks"
  by (auto simp add: getBankDetails_def getBankDetails_try_def findBank_def Let_def find_Some_iff
      split: js_value.splits option.splits completion.splits)

text \<open>
  Claim C10. For every code that resolves to an active bank, \<open>getSwiftCode\<close> with an
  empty-string branch, or with any branch when the bank has no branches list, returns the
  bank's default SWIFT code; an absent result therefore needs a non-empty branch string
  and a bank that has a branches list.
\<close>

theorem getSwiftCode_default:
  assumes "getBankDetails banks c = Normal (Some bank)"
  shows "active bank
    \<and> getSwiftCode banks c (JString []) = Normal (Some (swift bank))
    \<and> (branches bank = None \<longrightarrow>
          (\<forall>branch. getSwiftCode banks c branch = Normal (Some (swift bank))))
    \<and> (\<forall>branch. getSwiftCode banks c (JString branch) = Normal None \<longrightarrow>
          branch \<noteq> [] \<and> branches bank \<noteq> None)"
  using assms getBankDetails_active [OF assms]
  by (auto simp add: getSwiftCode_def getSwiftCode_try_def truthy_def
      split: option.splits completion.splits)

theorem getSwiftCode_default_witness:
  "getBankDetails exampleBanks (JString (str ''007'')) = Normal (Some bankB)
   \<and> branches bankB = None
   \<and> getSwiftCode exampleBanks (JString (str ''007'')) (JString []) =
       Normal (Some (str ''BCMAMAMC''))
   \<and> getSwiftCode exampleBanks (JString (str ''007'')) (JString (str ''780'')) =
       Normal (Some (str ''BCMAMAMC''))"
  using getSwiftCode_default [OF getBankDetails_B] getBankDetails_B
  by (simp add: bankB_def)

text \<open>
  Claim C8, as stated, fails: a supplied branch code that is the empty string is not
  searched for in the branches of the resolved bank; the default SWIFT code is returned
  although no branch has that code.
\<close>

theorem getSwiftCode_empty_branch_counterexample:
  "\<not> (\<forall>banks c b bank bs.
         getBankDetails banks c = Normal (Some bank) \<and> branches bank = Some bs \<longrightarrow>
         getSwiftCode banks c (JString b) =
           Normal (map_option branch_swift (find (\<lambda>x. branch_code x = b) bs)))"
proof
  assume a: "\<forall>banks c b bank bs.
         getBankDetails banks c = Normal (Some bank) \<and> branches bank = Some bs \<longrightarrow>
         getSwiftCode banks c (JString b) =
           Normal (map_option branch_swift (find (\<lambda>x. branch_code x = b) bs))"
  have b: "branches bankA =
      Some [\<lparr>branch_code = str ''780'', branch_swift = str ''BMCEMAMCRBT''\<rparr>]"
    by (simp add: bankA_def)
  have "find (\<lambda>x. branch_code x = [])
      [\<lparr>branch_code = str ''780'', branch_swift = str ''BMCEMAMCRBT''\<rparr>] = None"
    by (simp add: str_def)
  moreover have "getSwiftCode exampleBanks (JString (str ''011'')) (JString []) =
      Normal (map_option branch_swift (find (\<lambda>x. branch_code x = [])
        [\<lparr>branch_code = str ''780'', branch_swift = str ''BMCEMAMCRBT''\<rparr>]))"
    using a getBankDetails_A b by blast
  ultimately have "getSwiftCode exampleBanks (JString (str ''011'')) (JString []) = Normal None"
    by simp
  moreover have "getSwiftCode exampleBanks (JString (str ''011'')) (JString []) =
      Normal (Some (str ''BMCEMAMC''))"
    by (simp add: getSwiftCode_def getSwiftCode_try_def getBankDetails_A truthy_def bankA_def)
  ultimately show False by simp
qed

text \<open>
  Claim C8, amended. \<open>getSwiftCode\<close> resolves the bank with \<open>getBankDetails\<close> and returns
  absent when there is none. For a resolved bank it returns the default SWIFT code when
  no branch code is supplied or the supplied one is the empty string; when a non-empty
  branch code is supplied and the bank has branches, it returns the SWIFT code of the
  first branch whose code equals it exactly, or absent when no branch code does.
\<close>

theorem getSwiftCode_resolution:
  "(getBankDetails banks c = Normal None \<longrightarrow> getSwiftCode banks c branch = Normal None)
   \<and> (\<forall>bank. getBankDetails banks c = Normal (Some bank) \<longrightarrow>
         getSwiftCode banks c JUndefined = Normal (Some (swift bank))
         \<and> getSwiftCode banks c (JString []) = Normal (Some (swift bank))
         \<and> (\<forall>b bs. b \<noteq> [] \<and> branches bank = Some bs \<longrightarrow>
               getSwiftCode banks c (JString b) =
                 Normal (map_option branch_swift (find (\<lambda>x. branch_code x = b) bs))))"
  by (auto simp add: getSwiftCode_def getSwiftCode_try_def truthy_def
      split: option.splits completion.splits)

theorem getSwiftCode_resolution_witness:
  "getBankDetails exampleBanks (JString (str ''999'')) = Normal None
   \<and> getSwiftCode exampleBanks (JString (str ''999'')) (JString (str ''780'')) = Normal None
   \<and> getBankDetails exampleBanks (JString (str ''011'')) = Normal (Some bankA)
   \<and> getSwiftCode exampleBanks (JString (str ''011'')) JUndefined =
       Normal (Some (str ''BMCEMAMC''))
   \<and> getSwiftCode exampleBanks (JString (str ''011'')) (JString (str ''780'')) =
       Normal (Some (str ''BMCEMAMCRBT''))
   \<and> getSwiftCode exampleBanks (JString (str ''011'')) (JString (str ''78'')) = Normal None"
  using getSwiftCode_resolution [of exampleBanks "JString (str ''999'')" "JString (str ''780'')"]
    getSwiftCode_resolution [of exampleBanks "JString (str ''011'')" JUndefined]
    getBankDetails_A getBankDetails_C
  by (simp add: bankA_def str_def)

section \<open>No exception escapes\<close>

text \<open>
  Claim C3. For every input value every public function returns normally: no exception
  escapes to the caller. A value that is not a string makes \<open>isValidIBAN\<close> and
  \<open>isValidRIB\<close> return \<open>false\<close> and \<open>getBankDetails\<close> and \<open>getSwiftCode\<close> return
  \<open>undefined\<close>; a value that is not a number, and NaN, make \<open>madToWords\<close> return the
  sentence \<open>erreur de conversion\<close>.
\<close>

theorem no_exception_escapes:
  "(\<exists>b. isValidIBAN unicodeUpper banks v = Normal b)
   \<and> (\<exists>b. isValidRIB banks v = Normal b)
   \<and> (\<exists>r. getBankDetails banks v = Normal r)
   \<and> (\<exists>r. getSwiftCode banks v branch = Normal r)
   \<and> (\<exists>s. madToWords v = Normal s)
   \<and> ((\<forall>s. v \<noteq> JString s) \<longrightarrow>
         isValidIBAN unicodeUpper banks v = Normal False \<and> isValidRIB banks v = Normal False
         \<and> getBankDetails banks v = Normal None \<and> getSwiftCode banks v branch = Normal None)
   \<and> ((\<forall>r. v \<noteq> JNumber r) \<or> v = JNumber NaN \<longrightarrow>
         madToWords v = Normal ''erreur de conversion'')"
proof -
  have iban: "\<exists>b. isValidIBAN unicodeUpper banks v = Normal b"
    by (auto simp add: isValidIBAN_def split: completion.splits)
  have rib: "\<exists>b. isValidRIB banks v = Normal b"
    by (auto simp add: isValidRIB_def split: completion.splits)
  have bank: "\<exists>r. getBankDetails banks v = Normal r"
    by (auto simp add: getBankDetails_def split: completion.splits)
  have swift: "\<exists>r. getSwiftCode banks v branch = Normal r"
    by (auto simp add: getSwiftCode_def split: completion.splits)
  have words: "\<exists>s. madToWords v = Normal s"
    by (auto simp add: madToWords_def split: completion.splits)
  have nonstring: "isValidIBAN unicodeUpper banks v = Normal False \<and> isValidRIB banks v = Normal False
         \<and> getBankDetails banks v = Normal None \<and> getSwiftCode banks v branch = Normal None"
    if "\<forall>s. v \<noteq> JString s"
    using that
    by (cases v)
      (simp_all add: isValidIBAN_def isValidIBAN_try_def isValidRIB_def isValidRIB_try_def
        getBankDetails_def getBankDetails_try_def getSwiftCode_def getSwiftCode_try_def)
  have nonnumber: "madToWords v = Normal ''erreur de conversion''"
    if "(\<forall>r. v \<noteq> JNumber r) \<or> v = JNumber NaN"
    using that
    by (cases v) (auto simp add: madToWords_def madToWords_try_def)
  from iban rib bank swift words nonstring nonnumber show ?thesis
    by blast
qed

theorem no_exception_escapes_witness:
  "isValidIBAN asciiOnly exampleBanks JNull = Normal False
   \<and> isValidRIB exampleBanks JNull = Normal False
   \<and> getBankDetails exampleBanks JNull = Normal None
   \<and> getSwiftCode exampleBanks JNull (JString (str ''780'')) = Normal None
   \<and> madToWords JNull = Normal ''erreur de conversion''
   \<and> madToWords (JNumber NaN) = Normal ''erreur de conversion''"
  using no_exception_escapes [of asciiOnly exampleBanks JNull "JString (str ''780'')"]
    no_exception_escapes [of asciiOnly exampleBanks "JNumber NaN" JUndefined]
  by simp

section \<open>madToWords: properties\<close>

lemma wholeWords_exact:
  assumes "0 \<le> whole" and "whole < 2 ^ 53"
  shows "wholeWords whole =
     (let millions = whole div 1000000;
          thousands = (whole mod 1000000) div 1000;
          remainder = whole mod 1000
      in (if millions > 0
          then convertLessThanThousand millions @ '' million'' @
               (if millions > 1 then ''s '' else '' '')
          else '''') @
         (if thousands > 0
          then (if thousands = 1 then ''mille ''
                else convertLessThanThousand thousands @ '' mille '')
          else '''') @
         (if remainder > 0 then convertLessThanThousand remainder else ''''))"
proof -
  have m: "\<lfloor>fl (of_int whole / 1000000)\<rfloor> = whole div 1000000"
    using floor_fl_div [OF assms, of 1000000] by simp
  have "whole mod 1000000 < 2 ^ 53"
    using assms by (simp add: order_less_trans [OF pos_mod_bound])
  then have t: "\<lfloor>fl (of_int (whole mod 1000000) / 1000)\<rfloor> = whole mod 1000000 div 1000"
    using floor_fl_div [of "whole mod 1000000" 1000] by simp
  show ?thesis
    by (simp only: wholeWords_def m t)
qed

lemma madToWords_finite_eval:
  assumes "amount \<noteq> 0"
  shows "madToWords (JNumber (Finite amount)) =
    Normal ((if amount < 0 then ''moins '' else '''') @
      trim (dirhamsPart (wholeOf amount) @ centimesPart (wholeOf amount) (centsOf amount)))"
  using assms by (simp add: madToWords_def madToWords_try_def madToWords_finite_def Let_def)

text \<open>The doubles met below, and what the rounded operations give on them.\<close>

lemma fl_0: "fl 0 = 0"
  by (simp add: fl_def)

lemma fl_half: "fl (1 / 2) = 1 / 2"
  by (rule fl_exact [where e = "- 1" and m = "2 ^ 52"]) (simp_all add: pow2_def)

lemma fl_50: "fl 50 = 50"
  by (rule fl_exact [where e = 5 and m = "50 * 2 ^ 47"]) (simp_all add: pow2_def)

lemma fl_quarter: "fl (1 / 4) = 1 / 4"
  by (rule fl_exact [where e = "- 2" and m = "2 ^ 52"]) (simp_all add: pow2_def)

lemma fl_25: "fl 25 = 25"
  by (rule fl_exact [where e = 4 and m = "25 * 2 ^ 48"]) (simp_all add: pow2_def)

lemma fl_255_256: "fl (255 / 256) = 255 / 256"
  by (rule fl_exact [where e = "- 1" and m = "255 * 2 ^ 45"]) (simp_all add: pow2_def)

lemma fl_6375_64: "fl (6375 / 64) = 6375 / 64"
  by (rule fl_exact [where e = 6 and m = "6375 * 2 ^ 40"]) (simp_all add: pow2_def)

lemma centsOf_half: "wholeOf (1 / 2) = 0 \<and> centsOf (1 / 2) = 50"
proof -
  have w: "wholeOf (1 / 2) = 0"
    by code_simp
  have r: "Math_round 50 = 50"
    by code_simp
  have "centsOf (1 / 2) = 50"
    unfolding centsOf_def w by (simp add: fl_half fl_50 r)
  with w show ?thesis
    by simp
qed

lemma centsOf_255_256: "wholeOf (255 / 256) = 0 \<and> centsOf (255 / 256) = 100"
proof -
  have w: "wholeOf (255 / 256) = 0"
    by code_simp
  have r: "Math_round (6375 / 64) = 100"
    by code_simp
  have "centsOf (255 / 256) = 100"
    unfolding centsOf_def w by (simp add: fl_255_256 fl_6375_64 r)
  with w show ?thesis
    by simp
qed

lemma centsOf_511_256: "wholeOf (511 / 256) = 1 \<and> centsOf (511 / 256) = 100"
proof -
  have w: "wholeOf (511 / 256) = 1"
    by code_simp
  have r: "Math_round (6375 / 64) = 100"
    by code_simp
  have "centsOf (511 / 256) = 100"
    unfolding centsOf_def w by (simp add: fl_255_256 fl_6375_64 r)
  with w show ?thesis
    by simp
qed

lemma centsOf_1234: "wholeOf 1234 = 1234 \<and> centsOf 1234 = 0"
proof -
  have w: "wholeOf 1234 = 1234"
    by code_simp
  have r: "Math_round 0 = 0"
    by code_simp
  have "centsOf 1234 = 0"
    unfolding centsOf_def w by (simp add: fl_0 r)
  with w show ?thesis
    by simp
qed

lemma centsOf_181_4: "wholeOf (- (181 / 4)) = 45 \<and> centsOf (- (181 / 4)) = 25"
proof -
  have w: "wholeOf (- (181 / 4)) = 45"
    by code_simp
  have r: "Math_round 25 = 25"
    by code_simp
  have "centsOf (- (181 / 4)) = 25"
    unfolding centsOf_def w by (simp add: fl_quarter fl_25 r)
  with w show ?thesis
    by simp
qed

text \<open>
  The double nearest to 0.015 lies below 0.015, yet its product with 100 rounds to the
  double 1.5 and \<open>Math.round\<close> gives 2.
\<close>

lemma centsOf_double_0015:
  "wholeOf (1080863910568919 / 72057594037927936) = 0
   \<and> centsOf (1080863910568919 / 72057594037927936) = 2"
proof -
  let ?d = "1080863910568919 / 72057594037927936 :: rat"
  have w: "wholeOf ?d = 0"
    by code_simp
  have d: "fl ?d = ?d"
    by (rule fl_exact [where e = "- 7" and m = "1080863910568919 * 8"]) (simp_all add: pow2_def)
  have n: "roundHalfEven (27021597764222975 / 4) = 6755399441055744"
    by code_simp
  let ?p = "27021597764222975 / 18014398509481984 :: rat"
  have "fl ?p = of_int (roundHalfEven (?p / pow2 (0 - 52))) * pow2 (0 - 52)"
    by (rule fl_normal) (simp_all add: pow2_def)
  also have "?p / pow2 (0 - 52) = 27021597764222975 / 4"
    by (simp add: pow2_def)
  also have "of_int (roundHalfEven (27021597764222975 / 4)) * pow2 (0 - 52) = 3 / 2"
    by (simp add: n pow2_def)
  finally have p: "fl ?p = 3 / 2" .
  have r: "Math_round (3 / 2) = 2"
    by code_simp
  have "centsOf ?d = 2"
    unfolding centsOf_def w by (simp add: d p r)
  with w show ?thesis
    by simp
qed

lemma words_eval:
  "convertLessThanThousand 100 = ''cent''"
  "convertLessThanThousand 50 = ''cinquante''"
  "convertLessThanThousand 25 = ''vingt-cinq''"
  "convertLessThanThousand 45 = ''quarante-cinq''"
  "convertLessThanThousand 2 = ''deux''"
  "convertLessThanThousand 1 = ''un''"
  "convertLessThanThousand 234 = ''deux cent trente-quatre''"
  "convertLessThanThousand 200 = ''deux cent''"
  "convertLessThanThousand 34 = ''trente-quatre''"
  by code_simp+

lemma wholeWords_eval:
  "wholeWords 1 = ''un''"
  "wholeWords 45 = ''quarante-cinq''"
  "wholeWords 1234 = ''mille deux cent trente-quatre''"
  by (simp_all add: wholeWords_exact Let_def words_eval)

lemma trim_eval:
  "trim ''cent centimes'' = ''cent centimes''"
  "trim ''deux centimes'' = ''deux centimes''"
  "trim ''cinquante centimes'' = ''cinquante centimes''"
  "trim ''un dirham et cent centimes'' = ''un dirham et cent centimes''"
  "trim ''mille deux cent trente-quatre dirhams'' = ''mille deux cent trente-quatre dirhams''"
  "trim ''quarante-cinq dirhams et vingt-cinq centimes'' =
     ''quarante-cinq dirhams et vingt-cinq centimes''"
  by (simp_all add: trim_def isWhitespace_def)

lemma madToWords_1234:
  "madToWords (JNumber (Finite 1234)) = Normal ''mille deux cent trente-quatre dirhams''"
  using madToWords_finite_eval [of 1234] centsOf_1234
  by (simp add: dirhamsPart_def centimesPart_def wholeWords_eval trim_eval)

text \<open>The double nearest to 0.015 is rendered as two centimes.\<close>

lemma madToWords_double_0015:
  "madToWords (JNumber (Finite (1080863910568919 / 72057594037927936))) =
     Normal ''deux centimes''"
  using madToWords_finite_eval [of "1080863910568919 / 72057594037927936"] centsOf_double_0015
  by (simp add: dirhamsPart_def centimesPart_def words_eval trim_eval)

text \<open>
  A tie of the product: the double nearest to 1.115 is 5021513584518103 / 2 ^ 52; its
  fraction times 100 lies exactly between two doubles, the even one is 11.5, and
  \<open>Math.round\<close> gives 12.
\<close>

lemma centsOf_double_1115:
  "wholeOf (5021513584518103 / 4503599627370496) = 1
   \<and> centsOf (5021513584518103 / 4503599627370496) = 12"
proof -
  let ?d = "5021513584518103 / 4503599627370496 :: rat"
  let ?f = "517913957147607 / 4503599627370496 :: rat"
  have w: "wholeOf ?d = 1"
    by code_simp
  have s: "\<bar>?d\<bar> - of_int 1 = ?f"
    by simp
  have d: "fl ?f = ?f"
    by (rule fl_exact [where e = "- 4" and m = "517913957147607 * 16"]) (simp_all add: pow2_def)
  have n: "roundHalfEven (12947848928690175 / 2) = 6473924464345088"
    by code_simp
  let ?p = "12947848928690175 / 1125899906842624 :: rat"
  have "fl ?p = of_int (roundHalfEven (?p / pow2 (3 - 52))) * pow2 (3 - 52)"
    by (rule fl_normal) (simp_all add: pow2_def)
  also have "?p / pow2 (3 - 52) = 12947848928690175 / 2"
    by (simp add: pow2_def)
  also have "of_int (roundHalfEven (12947848928690175 / 2)) * pow2 (3 - 52) = 23 / 2"
    by (simp add: n pow2_def)
  finally have p: "fl ?p = 23 / 2" .
  have r: "Math_round (23 / 2) = 12"
    by code_simp
  have "centsOf ?d = 12"
    unfolding centsOf_def w s by (simp add: d p r)
  with w show ?thesis
    by simp
qed

lemma madToWords_double_1115:
  "madToWords (JNumber (Finite (5021513584518103 / 4503599627370496))) =
     Normal ''un dirham et douze centimes''"
proof -
  have c: "convertLessThanThousand 12 = ''douze''"
    by code_simp
  have t: "trim ''un dirham et douze centimes'' = ''un dirham et douze centimes''"
    by (simp add: trim_def isWhitespace_def)
  show ?thesis
    using madToWords_finite_eval [of "5021513584518103 / 4503599627370496"] centsOf_double_1115
    by (simp add: dirhamsPart_def centimesPart_def wholeWords_eval words_eval c t)
qed

text \<open>
  Claim C5. The amount is decomposed into \<open>whole = floor |amount|\<close> and
  \<open>cents = round ((|amount| - whole) * 100)\<close>, and the cents reach 100: a fraction of at
  least 0.995 rounds up to 100 cents, which is not carried into the whole part. At
  255/256 = 0.99609375 and at 511/256 = 1.99609375 (both doubles, as are all intermediate
  values) the output spells one hundred centimes.
\<close>

theorem madToWords_cents_overflow:
  "wholeOf (255 / 256) = 0 \<and> centsOf (255 / 256) = 100
   \<and> madToWords (JNumber (Finite (255 / 256))) = Normal ''cent centimes''
   \<and> madToWords (JNumber (Finite (511 / 256))) = Normal ''un dirham et cent centimes''"
proof -
  have a: "madToWords (JNumber (Finite (255 / 256))) = Normal ''cent centimes''"
    using madToWords_finite_eval [of "255 / 256"] centsOf_255_256
    by (simp add: dirhamsPart_def centimesPart_def words_eval trim_eval)
  have b: "madToWords (JNumber (Finite (511 / 256))) = Normal ''un dirham et cent centimes''"
    using madToWords_finite_eval [of "511 / 256"] centsOf_511_256
    by (simp add: dirhamsPart_def centimesPart_def wholeWords_eval words_eval trim_eval)
  from centsOf_255_256 a b show ?thesis
    by simp
qed

text \<open>
  Claim C6, as stated, fails: the word \<open>cent\<close> never takes a plural \<open>s\<close>, so 200 is rendered
  \<open>deux cent\<close> and 1234 is rendered with \<open>deux cent\<close>, as the documentation comment of
  \<open>madToWords\<close> in the source also has it.
\<close>

theorem hundreds_plural_counterexample:
  "convertLessThanThousand 200 \<noteq> ''deux cents''
   \<and> madToWords (JNumber (Finite 1234)) \<noteq> Normal ''mille deux cents trente-quatre dirhams''"
  by (simp add: words_eval madToWords_1234)

text \<open>
  Claim C6, amended. A group from 200 to 999 renders its hundreds as the unit word of the
  hundreds count followed by \<open>cent\<close> (without plural), followed by a space and the words
  of the rest when the rest is not zero; exactly 100 renders as bare \<open>cent\<close>; and 1234
  yields \<open>mille deux cent trente-quatre dirhams\<close>.
\<close>

theorem hundreds_rendering:
  "(200 \<le> n \<and> n \<le> 999 \<longrightarrow>
      convertLessThanThousand n =
        units ! nat (n div 100) @ '' cent'' @
        (if n mod 100 > 0 then '' '' @ convertLessThanThousand (n mod 100) else ''''))
   \<and> convertLessThanThousand 100 = ''cent''
   \<and> madToWords (JNumber (Finite 1234)) = Normal ''mille deux cent trente-quatre dirhams''"
proof -
  have a: "convertLessThanThousand n =
        units ! nat (n div 100) @ '' cent'' @
        (if n mod 100 > 0 then '' '' @ convertLessThanThousand (n mod 100) else '''')"
    if "200 \<le> n \<and> n \<le> 999"
  proof -
    have d: "0 \<le> n div 100" "nat (n div 100) < 10" using that by auto
    have m: "n mod 100 < 100" by simp
    have l: "length units = 10" by (simp add: units_def)
    show ?thesis
      using that d m l
      by (simp add: convertLessThanThousand_def [of n]
          convertLessThanThousand_def [of "n mod 100"] Let_def elemAt_def)
  qed
  have b: "convertLessThanThousand 100 = ''cent''"
    by (rule words_eval)
  from a b madToWords_1234 show ?thesis by blast
qed

theorem hundreds_rendering_witness:
  "convertLessThanThousand 200 = ''deux cent''
   \<and> convertLessThanThousand 234 = ''deux cent trente-quatre''
   \<and> convertLessThanThousand 100 = ''cent''"
  using hundreds_rendering [of 200] hundreds_rendering [of 234]
  by (simp add: units_def words_eval)

text \<open>
  Claim C7, as stated, fails: for a nonzero amount below one dirham the dirham segment is
  absent; one half is rendered by its centimes alone.
\<close>

theorem madToWords_without_dirhams_counterexample:
  "(1 / 2 :: rat) \<noteq> 0
   \<and> madToWords (JNumber (Finite (1 / 2))) = Normal ''cinquante centimes''"
  using madToWords_finite_eval [of "1 / 2"] centsOf_half
  by (simp add: dirhamsPart_def centimesPart_def words_eval trim_eval)

text \<open>
  Claim C7, amended. For a nonzero finite amount whose whole part or rounded cents is
  positive, the result is the sign word (\<open>moins\<close> and a space, for a negative amount)
  followed by the trimmed concatenation of three segments: the words of the whole part
  followed by the dirham unit, present exactly when the whole part is positive; the
  conjunction \<open>et\<close>, present exactly when the whole part and the rounded cents are both
  positive; the words of the cents followed by the centime unit, present exactly when
  the rounded cents are positive. The whole part is \<open>floor |amount|\<close> and the cents are
  \<open>Math.round\<close> of the double product of the fraction with 100.
\<close>

theorem madToWords_structure:
  assumes "amount \<noteq> 0" and "0 < wholeOf amount \<or> 0 < centsOf amount"
  shows "madToWords (JNumber (Finite amount)) =
    Normal
      ((if amount < 0 then ''moins '' else '''') @
       trim
         ((if 0 < wholeOf amount
           then wholeWords (wholeOf amount) @ '' dirham'' @
                (if wholeOf amount \<noteq> 1 then ''s'' else '''')
           else '''') @
          (if 0 < wholeOf amount \<and> 0 < centsOf amount then '' et '' else '''') @
          (if 0 < centsOf amount
           then convertLessThanThousand (centsOf amount) @ '' centime'' @
                (if centsOf amount \<noteq> 1 then ''s'' else '''')
           else '''')))"
  using assms
  by (simp add: madToWords_def madToWords_try_def madToWords_finite_def Let_def
      dirhamsPart_def centimesPart_def)

theorem madToWords_structure_witness:
  "(- (181 / 4) :: rat) \<noteq> 0 \<and> 0 < wholeOf (- (181 / 4))
   \<and> madToWords (JNumber (Finite (- (181 / 4)))) =
       Normal ''moins quarante-cinq dirhams et vingt-cinq centimes''
   \<and> madToWords (JNumber (Finite (1080863910568919 / 72057594037927936))) =
       Normal ''deux centimes''"
proof -
  have h1: "(- (181 / 4) :: rat) \<noteq> 0" by simp
  have w: "wholeOf (- (181 / 4)) = 45" and c: "centsOf (- (181 / 4)) = 25"
    using centsOf_181_4 by simp_all
  have h2: "0 < wholeOf (- (181 / 4)) \<or> 0 < centsOf (- (181 / 4))" by (simp add: w)
  have a: "madToWords (JNumber (Finite (- (181 / 4)))) =
       Normal ''moins quarante-cinq dirhams et vingt-cinq centimes''"
    using madToWords_structure [OF h1 h2]
    by (simp add: w c wholeWords_eval words_eval trim_eval)
  have g1: "(1080863910568919 / 72057594037927936 :: rat) \<noteq> 0" by simp
  have g2: "0 < wholeOf (1080863910568919 / 72057594037927936)
      \<or> 0 < centsOf (1080863910568919 / 72057594037927936)"
    using centsOf_double_0015 by simp
  have b: "madToWords (JNumber (Finite (1080863910568919 / 72057594037927936))) =
       Normal ''deux centimes''"
    using madToWords_structure [OF g1 g2] centsOf_double_0015
    by (simp add: words_eval trim_eval)
  from h1 w a b show ?thesis
    by simp
qed

section \<open>isValidRIB: the key check\<close>

lemma spec_chunks_drop:
  "i < length p \<Longrightarrow> spec_chunks (drop i p) = slice i (i + 7) p # spec_chunks (drop (i + 7) p)"
  by (subst spec_chunks.simps) (simp add: slice_def add.commute)

lemma chunks_loop_spec:
  "chunks_loop payload i chunks = chunks @ map parseInt10 (spec_chunks (drop i payload))"
proof (induction payload i chunks rule: chunks_loop.induct)
  case (1 payload i chunks)
  show ?case
  proof (cases "i < length payload")
    case True
    then show ?thesis
      using "1.IH" by (subst chunks_loop.simps) (simp add: spec_chunks_drop)
  next
    case False
    then show ?thesis
      by (subst chunks_loop.simps) (simp add: spec_chunks.simps)
  qed
qed

lemma length_digits10: "length (digits10 n) = spec_digitCount n"
proof (induction n rule: digits10.induct)
  case (1 n)
  then show ?case
    by (subst digits10.simps, subst spec_digitCount.simps) simp
qed

lemma remainder_loop_None: "remainder_loop cs None = None"
  by (induction cs) simp_all

lemma remainder_loop_NaN:
  "None \<in> set cs \<Longrightarrow> remainder_loop cs r = None"
  by (induction cs arbitrary: r) (auto simp add: remainder_loop_None split: option.splits)

lemma js_rem_nonneg: "0 \<le> a \<Longrightarrow> js_rem a 97 = a mod 97"
  by (cases "a = 0") (simp_all add: js_rem_def)

lemma remainder_loop_spec:
  "remainder_loop (map (\<lambda>c. Some (int c)) cs) (Some (int r)) =
     Some (int (foldl (\<lambda>remainder chunk. (remainder * 10 ^ spec_digitCount chunk + chunk) mod 97)
        r cs))"
proof (induction cs arbitrary: r)
  case Nil
  then show ?case by simp
next
  case (Cons c cs)
  have "js_rem (int r * 10 ^ length (numberToString (Some (int c))) + int c) 97 =
      int ((r * 10 ^ spec_digitCount c + c) mod 97)"
    by (simp add: js_rem_nonneg numberToString_def toString_def length_digits10 zmod_int)
  then show ?case
    using Cons.IH by simp
qed

lemma those_None: "those xs = None \<longleftrightarrow> None \<in> set xs"
  by (induction xs) (auto split: option.splits)

lemma those_Some: "those xs = Some ys \<Longrightarrow> xs = map Some ys"
  by (induction xs arbitrary: ys) (auto split: option.splits)

text \<open>
  The accumulating loop of \<open>parseInt\<close> computes the integer that the digits spell, and on
  a string without white space and without hyphen \<open>parseInt\<close> is the parse of the
  specification.
\<close>

lemma decimalValue_spec:
  "decimalValue ds acc = acc * 10 ^ length ds + spec_number (map digitValue ds)"
  by (induction ds arbitrary: acc) (simp_all add: algebra_simps)

lemma parseInt10_spec:
  assumes "\<forall>c \<in> set s. \<not> isWhitespace c \<and> c \<noteq> of_char CHR ''-''"
  shows "parseInt10 s = map_option int (spec_decimalInteger s)"
proof (cases s)
  case Nil
  then show ?thesis
    by (simp add: parseInt10_def spec_decimalInteger_def)
next
  case (Cons c r)
  with assms have c: "\<not> isWhitespace c" "c \<noteq> of_char CHR ''-''"
    by simp_all
  then show ?thesis
    by (simp add: Cons parseInt10_def spec_decimalInteger_def Let_def decimalValue_spec)
qed

lemma spec_decimalInteger_digits:
  assumes "list_all isDigit s" and "s \<noteq> []"
  shows "spec_decimalInteger s = Some (spec_number (map digitValue s))"
proof -
  from assms obtain c r where s: "s = c # r" and c: "isDigit c"
    by (cases s) simp_all
  have "\<not> isDigit (of_char CHR ''+'')"
    by (simp add: isDigit_def)
  with c have "c \<noteq> of_char CHR ''+''"
    by auto
  moreover have "takeWhile isDigit s = s"
    using assms(1) by (simp add: list_all_iff)
  ultimately show ?thesis
    using assms(2) by (simp add: spec_decimalInteger_def s)
qed

lemma spec_chunks_subset: "c \<in> set (spec_chunks s) \<Longrightarrow> set c \<subseteq> set s"
proof (induction s arbitrary: c rule: spec_chunks.induct)
  case (1 s)
  show ?case
  proof (cases "s = []")
    case True
    with "1.prems" show ?thesis by (simp add: spec_chunks.simps)
  next
    case False
    with "1.prems" have "c = take 7 s \<or> c \<in> set (spec_chunks (drop 7 s))"
      by (subst (asm) spec_chunks.simps) simp
    then show ?thesis
      using "1.IH" [OF False] set_take_subset [of 7 s] set_drop_subset [of 7 s] by blast
  qed
qed

lemma spec_fold_less:
  "r < 97 \<Longrightarrow>
   foldl (\<lambda>remainder chunk. (remainder * 10 ^ spec_digitCount chunk + chunk) mod 97) r cs < (97::nat)"
  by (induction cs arbitrary: r) simp_all

lemma expectedKeyOf_spec:
  assumes "\<forall>c \<in> set payload. \<not> isWhitespace c \<and> c \<noteq> of_char CHR ''-''"
  shows "expectedKeyOf payload =
    (case those (map spec_decimalInteger (spec_chunks payload)) of
       Some chunks \<Rightarrow> Some (int (spec_expectedKey chunks))
     | None \<Rightarrow> None)"
proof -
  have p: "map parseInt10 (spec_chunks payload) =
      map (\<lambda>ch. map_option int (spec_decimalInteger ch)) (spec_chunks payload)"
  proof (rule map_cong [OF refl])
    fix ch assume "ch \<in> set (spec_chunks payload)"
    from spec_chunks_subset [OF this] assms
    have "\<forall>c \<in> set ch. \<not> isWhitespace c \<and> c \<noteq> of_char CHR ''-''"
      by blast
    then show "parseInt10 ch = map_option int (spec_decimalInteger ch)"
      by (rule parseInt10_spec)
  qed
  show ?thesis
  proof (cases "those (map spec_decimalInteger (spec_chunks payload))")
    case None
    then have "None \<in> set (map spec_decimalInteger (spec_chunks payload))"
      by (simp only: those_None)
    then have "None \<in> set (map parseInt10 (spec_chunks payload))"
      unfolding p by force
    then have "remainder_loop (map parseInt10 (spec_chunks payload)) (Some 0) = None"
      by (rule remainder_loop_NaN)
    with None show ?thesis
      by (simp add: expectedKeyOf_def chunks_loop_spec)
  next
    case (Some cs)
    then have "map spec_decimalInteger (spec_chunks payload) = map Some cs"
      by (rule those_Some)
    then have "map (map_option int) (map spec_decimalInteger (spec_chunks payload)) =
        map (map_option int) (map Some cs)"
      by (rule arg_cong)
    then have m: "map parseInt10 (spec_chunks payload) = map (\<lambda>c. Some (int c)) cs"
      by (simp add: p comp_def)
    let ?f = "foldl (\<lambda>remainder chunk. (remainder * 10 ^ spec_digitCount chunk + chunk) mod 97)
        0 cs"
    have r: "remainder_loop (map (\<lambda>c. Some (int c)) cs) (Some 0) = Some (int ?f)"
      using remainder_loop_spec [of cs 0] by simp
    have "?f < 97" by (rule spec_fold_less) simp
    then have "js_rem (97 - int ?f) 97 = int ((97 - ?f) mod 97)"
      by (simp add: js_rem_nonneg zmod_int)
    with Some r show ?thesis
      by (simp add: expectedKeyOf_def chunks_loop_spec m spec_expectedKey_def)
  qed
qed

lemma stripWhitespaceHyphen_clean:
  "\<forall>c \<in> set (stripWhitespaceHyphen s). \<not> isWhitespace c \<and> c \<noteq> of_char CHR ''-''"
  by (simp add: stripWhitespaceHyphen_def)

text \<open>
  Claim C2. For a RIB that passes the bank lookup, the length check and the pattern
  check, \<open>isValidRIB\<close> accepts exactly when the key recomputed from the payload equals the
  last two characters parsed in base 10: the payload is cut left to right into chunks of
  at most 7 characters, each chunk is parsed as a decimal integer, the chunks are folded
  as \<open>remainder = (remainder * 10 ^ digitCount chunk + chunk) mod 97\<close> where the digit
  count is that of the parsed integer, and the expected key is \<open>(97 - remainder) mod 97\<close>.
\<close>

theorem isValidRIB_key_check:
  assumes "findBank banks (substring 0 3 (stripWhitespaceHyphen rib)) = Some bank"
    and "length (stripWhitespaceHyphen rib) = ribLength bank"
    and "ribRegex bank (stripWhitespaceHyphen rib)"
  shows "isValidRIB banks (JString rib) = Normal (spec_ribKeyMatches (stripWhitespaceHyphen rib))"
proof -
  let ?c = "stripWhitespaceHyphen rib"
  have "\<forall>c \<in> set (slice_0_neg2 ?c). \<not> isWhitespace c \<and> c \<noteq> of_char CHR ''-''"
    using stripWhitespaceHyphen_clean [of rib] set_take_subset [of "length ?c - 2" ?c]
    unfolding slice_0_neg2_def by blast
  then have e: "expectedKeyOf (slice_0_neg2 ?c) =
    (case those (map spec_decimalInteger (spec_chunks (slice_0_neg2 ?c))) of
       Some chunks \<Rightarrow> Some (int (spec_expectedKey chunks))
     | None \<Rightarrow> None)"
    by (rule expectedKeyOf_spec)
  have "\<forall>c \<in> set (slice_neg2 ?c). \<not> isWhitespace c \<and> c \<noteq> of_char CHR ''-''"
    using stripWhitespaceHyphen_clean [of rib] set_drop_subset [of "length ?c - 2" ?c]
    unfolding slice_neg2_def by blast
  then have k: "parseInt10 (slice_neg2 ?c) = map_option int (spec_decimalInteger (slice_neg2 ?c))"
    by (rule parseInt10_spec)
  show ?thesis
    using assms
    by (simp add: isValidRIB_def isValidRIB_try_def Let_def e k spec_ribKeyMatches_def
        strictEq_def split: option.splits)
qed

text \<open>A chunk with leading zeros counts the digits of its value: four, not seven.\<close>

lemma digitCount_leading_zeros:
  "spec_decimalInteger (str ''0001234'') = Some 1234 \<and> spec_digitCount 1234 = 4
   \<and> parseInt10 (str ''0001234'') = Some 1234
   \<and> length (numberToString (parseInt10 (str ''0001234''))) = 4"
proof -
  have d: "list_all isDigit (str ''0001234'')" "str ''0001234'' \<noteq> []"
    by (simp_all add: str_def isDigit_def)
  have n: "spec_number (map digitValue (str ''0001234'')) = 1234"
    by (simp add: str_def digitValue_def)
  have a: "spec_decimalInteger (str ''0001234'') = Some 1234"
    using spec_decimalInteger_digits [OF d] n by simp
  have "\<forall>c \<in> set (str ''0001234''). \<not> isWhitespace c \<and> c \<noteq> of_char CHR ''-''"
    by (simp add: str_def isWhitespace_def)
  then have b: "parseInt10 (str ''0001234'') = Some 1234"
    using parseInt10_spec [of "str ''0001234''"] a by simp
  have c: "spec_digitCount 1234 = 4"
    by (simp add: spec_digitCount.simps)
  have "length (numberToString (Some 1234)) = 4"
    using length_digits10 [of 1234] c by (simp add: numberToString_def toString_def)
  with a b c show ?thesis
    by simp
qed

lemma example_rib_clean:
  "stripWhitespaceHyphen (str ''011-780 0000012345678901 60'') =
     str ''011780000001234567890160''"
  by (simp add: str_def stripWhitespaceHyphen_def isWhitespace_def)

lemma example_rib_clean2:
  "stripWhitespaceHyphen (str ''011780000001234567890161'') = str ''011780000001234567890161''"
  by (simp add: str_def stripWhitespaceHyphen_def isWhitespace_def)

lemma example_rib_chunks:
  "those (map spec_decimalInteger (spec_chunks (str ''0117800000012345678901''))) =
     Some [117800, 123, 4567890, 1]"
  "spec_decimalInteger (str ''60'') = Some 60"
  "spec_decimalInteger (str ''61'') = Some 61"
  "spec_expectedKey [117800, 123, 4567890, 1] = 60"
proof -
  have k1: "spec_chunks (str ''0117800000012345678901'') =
      [str ''0117800'', str ''0000123'', str ''4567890'', str ''1'']"
    by (simp add: str_def spec_chunks.simps)
  have k2: "spec_decimalInteger (str ''0117800'') = Some 117800"
    "spec_decimalInteger (str ''0000123'') = Some 123"
    "spec_decimalInteger (str ''4567890'') = Some 4567890"
    "spec_decimalInteger (str ''1'') = Some 1"
    by (simp_all add: str_def spec_decimalInteger_def isDigit_def digitValue_def)
  show "those (map spec_decimalInteger (spec_chunks (str ''0117800000012345678901''))) =
     Some [117800, 123, 4567890, 1]"
    by (simp add: k1 k2)
  show "spec_decimalInteger (str ''60'') = Some 60" "spec_decimalInteger (str ''61'') = Some 61"
    by (simp_all add: str_def spec_decimalInteger_def isDigit_def digitValue_def)
  have dc: "spec_digitCount 117800 = 6" "spec_digitCount 123 = 3" "spec_digitCount 4567890 = 7"
    "spec_digitCount 1 = 1"
    by (simp_all add: spec_digitCount.simps)
  show "spec_expectedKey [117800, 123, 4567890, 1] = 60"
    unfolding spec_expectedKey_def foldl.simps dc by simp
qed

lemma example_rib_key:
  "spec_ribKeyMatches (str ''011780000001234567890160'')"
  "\<not> spec_ribKeyMatches (str ''011780000001234567890161'')"
proof -
  have p: "slice_0_neg2 (str ''011780000001234567890160'') = str ''0117800000012345678901''"
    "slice_neg2 (str ''011780000001234567890160'') = str ''60''"
    "slice_0_neg2 (str ''011780000001234567890161'') = str ''0117800000012345678901''"
    "slice_neg2 (str ''011780000001234567890161'') = str ''61''"
    by (simp_all add: str_def slice_0_neg2_def slice_neg2_def)
  show "spec_ribKeyMatches (str ''011780000001234567890160'')"
    "\<not> spec_ribKeyMatches (str ''011780000001234567890161'')"
    by (simp_all add: spec_ribKeyMatches_def p example_rib_chunks del: One_nat_def)
qed

theorem isValidRIB_key_check_witness:
  "findBank exampleBanks
     (substring 0 3 (stripWhitespaceHyphen (str ''011-780 0000012345678901 60''))) = Some bankA
   \<and> length (stripWhitespaceHyphen (str ''011-780 0000012345678901 60'')) = ribLength bankA
   \<and> ribRegex bankA (stripWhitespaceHyphen (str ''011-780 0000012345678901 60''))
   \<and> isValidRIB exampleBanks (JString (str ''011-780 0000012345678901 60'')) = Normal True
   \<and> isValidRIB exampleBanks (JString (str ''011780000001234567890161'')) = Normal False"
proof -
  have h1: "findBank exampleBanks
      (substring 0 3 (stripWhitespaceHyphen (str ''011-780 0000012345678901 60''))) = Some bankA"
    unfolding example_rib_clean
    by (simp add: findBank_def exampleBanks_def bankA_def substring_def str_def)
  have h2: "length (stripWhitespaceHyphen (str ''011-780 0000012345678901 60'')) =
      ribLength bankA"
    unfolding example_rib_clean by (simp add: bankA_def str_def)
  have h3: "ribRegex bankA (stripWhitespaceHyphen (str ''011-780 0000012345678901 60''))"
    unfolding example_rib_clean by (simp add: bankA_def str_def isDigit_def)
  have v: "isValidRIB exampleBanks (JString (str ''011-780 0000012345678901 60'')) =
      Normal True"
    using isValidRIB_key_check [OF h1 h2 h3] example_rib_key(1)
    by (simp add: example_rib_clean)
  have g1: "findBank exampleBanks
      (substring 0 3 (stripWhitespaceHyphen (str ''011780000001234567890161''))) = Some bankA"
    unfolding example_rib_clean2
    by (simp add: findBank_def exampleBanks_def bankA_def substring_def str_def)
  have g2: "length (stripWhitespaceHyphen (str ''011780000001234567890161'')) = ribLength bankA"
    unfolding example_rib_clean2 by (simp add: bankA_def str_def)
  have g3: "ribRegex bankA (stripWhitespaceHyphen (str ''011780000001234567890161''))"
    unfolding example_rib_clean2 by (simp add: bankA_def str_def isDigit_def)
  have r: "isValidRIB exampleBanks (JString (str ''011780000001234567890161'')) = Normal False"
    using isValidRIB_key_check [OF g1 g2 g3] example_rib_key(2)
    by (simp add: example_rib_clean2)
  from h1 h2 h3 v r show ?thesis
    by blast
qed

section \<open>isValidIBAN: the checks and the checksum\<close>

lemma mod97_loop_append: "mod97_loop (xs @ ys) r = mod97_loop ys (mod97_loop xs r)"
  by (induction xs arbitrary: r) simp_all

lemma mod97_loop_digits:
  "list_all isDigit ds \<Longrightarrow>
   mod97_loop ds (Some r) =
     Some (foldl (\<lambda>remainder digit. (remainder * 10 + digit) mod 97) r (map digitValue ds))"
  by (induction ds arbitrary: r) (simp_all add: parseInt_char_def)

lemma numericOf_Cons:
  "numericOf (c # cs) =
     (if isDigit c then [c] else toString (int (unat c) - 55)) @ numericOf cs"
  by (simp add: numericOf_def)

lemma digits10_two:
  assumes "10 \<le> n" and "n < 100"
  shows "digits10 n = [of_nat (48 + n div 10), of_nat (48 + n mod 10)]"
proof -
  from assms have "n div 10 < 10"
    by arith
  then have "digits10 (n div 10) = [of_nat (48 + n div 10)]"
    by (subst digits10.simps) simp
  then show ?thesis
    using assms by (subst digits10.simps) simp
qed

lemma letter_M:
  "\<not> isDigit (of_char CHR ''M'')
   \<and> list_all isDigit (toString (int (unat (of_char CHR ''M'' :: code_unit)) - 55))
   \<and> map digitValue (toString (int (unat (of_char CHR ''M'' :: code_unit)) - 55)) =
       spec_charDigits (of_char CHR ''M'')"
  by (simp add: isDigit_def toString_def digits10_two digitValue_def spec_charDigits_def)

lemma letter_A:
  "\<not> isDigit (of_char CHR ''A'')
   \<and> list_all isDigit (toString (int (unat (of_char CHR ''A'' :: code_unit)) - 55))
   \<and> map digitValue (toString (int (unat (of_char CHR ''A'' :: code_unit)) - 55)) =
       spec_charDigits (of_char CHR ''A'')"
  by (simp add: isDigit_def toString_def digits10_two digitValue_def spec_charDigits_def)

lemma numericOf_ibanChars:
  "list_all ibanChar xs \<Longrightarrow>
   list_all isDigit (numericOf xs)
   \<and> map digitValue (numericOf xs) = concat (map spec_charDigits xs)"
proof (induction xs)
  case Nil
  then show ?case by (simp add: numericOf_def)
next
  case (Cons c cs)
  then have c: "ibanChar c" and cs: "list_all ibanChar cs" by simp_all
  from c consider "isDigit c" | "c = of_char CHR ''M''" | "c = of_char CHR ''A''"
    unfolding ibanChar_def by blast
  then have "list_all isDigit (if isDigit c then [c] else toString (int (unat c) - 55))
    \<and> map digitValue (if isDigit c then [c] else toString (int (unat c) - 55)) =
        spec_charDigits c"
  proof cases
    case 1
    then show ?thesis by (simp add: spec_charDigits_def)
  next
    case 2
    then show ?thesis using letter_M by simp
  next
    case 3
    then show ?thesis using letter_A by simp
  qed
  with Cons.IH [OF cs] show ?case
    by (simp add: numericOf_Cons)
qed

lemma mod97_loop_spec:
  assumes "list_all ibanChar xs"
  shows "mod97_loop (numericOf xs) (Some 0) = Some (spec_mod97 (concat (map spec_charDigits xs)))"
  using numericOf_ibanChars [OF assms] mod97_loop_digits [of "numericOf xs" 0]
  by (simp add: spec_mod97_def)

lemma test_MA_d26_chars:
  assumes "test_MA_d26 c"
  shows "\<forall>x \<in> set c. ibanChar x"
proof -
  from assms have t: "take 2 c = str ''MA''" and d: "list_all isDigit (drop 2 c)"
    by (simp_all add: test_MA_d26_def)
  have "set c = set (take 2 c) \<union> set (drop 2 c)"
    by (metis append_take_drop_id set_append)
  with t d show ?thesis
    by (auto simp add: ibanChar_def list_all_iff str_def)
qed

lemma rearranged_ibanChars:
  assumes "test_MA_d26 c"
  shows "list_all ibanChar (drop 4 c @ take 4 c)"
proof -
  have "set (drop 4 c @ take 4 c) \<subseteq> set c"
    using set_take_subset [of 4 c] set_drop_subset [of 4 c] by simp
  with test_MA_d26_chars [OF assms] show ?thesis
    by (auto simp add: list_all_iff)
qed

lemma isValidIBAN_find:
  "isValidIBAN unicodeUpper banks (JString s) =
     Normal (test_MA_d26 (toUpperCase unicodeUpper (stripWhitespace s))
       \<and> (case findBank banks (substring 4 7 (toUpperCase unicodeUpper (stripWhitespace s))) of
             None \<Rightarrow> False
           | Some bank \<Rightarrow> ibanRegex bank (toUpperCase unicodeUpper (stripWhitespace s)))
       \<and> spec_ibanRemainder (toUpperCase unicodeUpper (stripWhitespace s)) = 1)"
proof (cases "test_MA_d26 (toUpperCase unicodeUpper (stripWhitespace s))")
  case True
  have "mod97_loop (numericOf (drop 4 (toUpperCase unicodeUpper (stripWhitespace s)) @
            take 4 (toUpperCase unicodeUpper (stripWhitespace s)))) (Some 0) =
        Some (spec_ibanRemainder (toUpperCase unicodeUpper (stripWhitespace s)))"
    unfolding spec_ibanRemainder_def
    by (rule mod97_loop_spec) (rule rearranged_ibanChars [OF True])
  with True show ?thesis
    by (simp add: isValidIBAN_def isValidIBAN_try_def Let_def split: option.splits)
next
  case False
  then show ?thesis
    by (simp add: isValidIBAN_def isValidIBAN_try_def Let_def)
qed

lemma findBank_unique:
  assumes "distinct (map code banks)"
  shows "(case findBank banks k of None \<Rightarrow> False | Some bank \<Rightarrow> P bank) =
         (\<exists>b \<in> set banks. code b = k \<and> active b \<and> P b)"
proof (cases "findBank banks k")
  case None
  then have "\<not> (\<exists>b \<in> set banks. code b = k \<and> active b)"
    by (auto simp add: findBank_def find_None_iff)
  with None show ?thesis
    by auto
next
  case (Some bank)
  then have b: "bank \<in> set banks" "code bank = k" "active bank"
    by (auto simp add: findBank_def find_Some_iff)
  from assms have inj: "inj_on code (set banks)"
    by (simp add: distinct_map)
  have u: "b = bank" if "b \<in> set banks" "code b = k" for b
    using inj that(1) b(1) that(2) b(2) by (simp add: inj_on_def)
  have "(\<exists>b \<in> set banks. code b = k \<and> active b \<and> P b) = P bank"
  proof
    assume "\<exists>b \<in> set banks. code b = k \<and> active b \<and> P b"
    then obtain b' where "b' \<in> set banks" "code b' = k" "P b'" by blast
    with u [of b'] show "P bank" by simp
  next
    assume "P bank"
    with b show "\<exists>b \<in> set banks. code b = k \<and> active b \<and> P b" by blast
  qed
  with Some show ?thesis
    by simp
qed

text \<open>
  Claim C1. Over a registry whose bank codes are unique, \<open>isValidIBAN\<close> returns \<open>true\<close> on a
  string exactly when the input, with white space stripped and uppercased, matches \<open>MA\<close>
  followed by 26 digits, the three characters at positions 4 to 6 are the code of an
  active bank of the registry, the normalised IBAN matches that bank's pattern, and the
  MOD 97-10 remainder (first four characters moved to the end, letters mapped to their
  ordinal minus 55, digits to themselves, folded digit by digit) is 1; it returns
  \<open>false\<close> otherwise.
\<close>

theorem isValidIBAN_iff:
  assumes "distinct (map code banks)"
  shows "isValidIBAN unicodeUpper banks (JString s) =
     Normal (test_MA_d26 (toUpperCase unicodeUpper (stripWhitespace s))
       \<and> (\<exists>b \<in> set banks.
             code b = substring 4 7 (toUpperCase unicodeUpper (stripWhitespace s)) \<and> active b
             \<and> ibanRegex b (toUpperCase unicodeUpper (stripWhitespace s)))
       \<and> spec_ibanRemainder (toUpperCase unicodeUpper (stripWhitespace s)) = 1)"
  by (simp only: isValidIBAN_find findBank_unique [OF assms])

lemma example_iban_clean:
  "toUpperCase unicodeUpper (stripWhitespace (str ''ma64 0115 1900 0001 2050 0053 4921'')) =
     str ''MA64011519000001205000534921''"
  "toUpperCase unicodeUpper
     (stripWhitespace (str ''MA64'' @ [0xA0] @ str ''011519000001205000534921'')) =
     str ''MA64011519000001205000534921''"
  "toUpperCase unicodeUpper (stripWhitespace (str ''MA65011519000001205000534921'')) =
     str ''MA65011519000001205000534921''"
  by (simp_all add: str_def stripWhitespace_def isWhitespace_def toUpperCase_def isAscii_def
      toUpperCase_ascii_def)

lemma example_iban_remainder:
  "spec_ibanRemainder (str ''MA64011519000001205000534921'') = 1"
  "spec_ibanRemainder (str ''MA65011519000001205000534921'') \<noteq> 1"
  by (simp_all add: str_def spec_ibanRemainder_def spec_mod97_def spec_charDigits_def isDigit_def
      digitValue_def)

theorem isValidIBAN_iff_witness:
  "distinct (map code exampleBanks)
   \<and> isValidIBAN asciiOnly exampleBanks
         (JString (str ''ma64 0115 1900 0001 2050 0053 4921'')) = Normal True
   \<and> isValidIBAN asciiOnly exampleBanks
         (JString (str ''MA64'' @ [0xA0] @ str ''011519000001205000534921'')) = Normal True
   \<and> isValidIBAN asciiOnly exampleBanks
         (JString (str ''MA65011519000001205000534921'')) = Normal False"
proof -
  have h: "distinct (map code exampleBanks)"
    by (simp add: exampleBanks_def bankA_def bankB_def bankC_def str_def)
  have t: "test_MA_d26 (str ''MA64011519000001205000534921'')"
    by (simp add: test_MA_d26_def isDigit_def str_def)
  have k: "\<exists>b \<in> set exampleBanks.
      code b = substring 4 7 (str ''MA64011519000001205000534921'') \<and> active b
      \<and> ibanRegex b (str ''MA64011519000001205000534921'')"
    using t by (simp add: substring_def exampleBanks_def bankA_def str_def)
  have a: "isValidIBAN asciiOnly exampleBanks
      (JString (str ''ma64 0115 1900 0001 2050 0053 4921'')) = Normal True"
    using isValidIBAN_iff [OF h, of asciiOnly "str ''ma64 0115 1900 0001 2050 0053 4921''"] t k
    by (simp only: example_iban_clean example_iban_remainder simp_thms)
  have n: "isValidIBAN asciiOnly exampleBanks
      (JString (str ''MA64'' @ [0xA0] @ str ''011519000001205000534921'')) = Normal True"
    using isValidIBAN_iff [OF h, of asciiOnly
        "str ''MA64'' @ [0xA0] @ str ''011519000001205000534921''"] t k
    by (simp only: example_iban_clean example_iban_remainder simp_thms)
  have b: "isValidIBAN asciiOnly exampleBanks
      (JString (str ''MA65011519000001205000534921'')) = Normal False"
    using isValidIBAN_iff [OF h, of asciiOnly "str ''MA65011519000001205000534921''"]
      example_iban_remainder(2)
    by (simp only: example_iban_clean simp_thms)
  from h a n b show ?thesis by blast
qed

subsection \<open>Checksum sensitivity\<close>

text \<open>The digit-by-digit fold computes the number that the digits spell, modulo 97.\<close>

lemma spec_mod97_decimalOf: "spec_mod97 ds = decimalOf ds mod 97"
proof (induction ds rule: rev_induct)
  case Nil
  then show ?case by (simp add: spec_mod97_def decimalOf_def)
next
  case (snoc d ds)
  have "spec_mod97 (ds @ [d]) = (spec_mod97 ds * 10 + d) mod 97"
    by (simp add: spec_mod97_def)
  also have "\<dots> = (decimalOf ds mod 97 * 10 + d) mod 97"
    by (simp only: snoc.IH)
  also have "\<dots> = (decimalOf ds * 10 + d) mod 97"
    by (metis mod_add_left_eq mod_mult_left_eq)
  also have "\<dots> = decimalOf (ds @ [d]) mod 97"
    by (simp add: decimalOf_def)
  finally show ?case .
qed

lemma decimalOf_append: "decimalOf (xs @ ys) = decimalOf xs * 10 ^ length ys + decimalOf ys"
proof (induction ys rule: rev_induct)
  case Nil
  then show ?case by (simp add: decimalOf_def)
next
  case (snoc y ys)
  have "decimalOf (xs @ ys @ [y]) = decimalOf (xs @ ys) * 10 + y"
    by (simp add: decimalOf_def)
  also have "\<dots> = (decimalOf xs * 10 ^ length ys + decimalOf ys) * 10 + y"
    by (simp only: snoc.IH)
  also have "\<dots> = decimalOf xs * 10 ^ length (ys @ [y]) + (decimalOf ys * 10 + y)"
    by (simp add: algebra_simps)
  also have "decimalOf ys * 10 + y = decimalOf (ys @ [y])"
    by (simp add: decimalOf_def)
  finally show ?case by simp
qed

lemma decimalOf_middle:
  "decimalOf (p @ [a] @ q) = a * 10 ^ length q + (decimalOf p * 10 ^ Suc (length q) + decimalOf q)"
proof -
  have "decimalOf [a] = a"
    by (simp add: decimalOf_def)
  then have "decimalOf ([a] @ q) = a * 10 ^ length q + decimalOf q"
    by (simp only: decimalOf_append)
  then have "decimalOf (p @ [a] @ q) =
      decimalOf p * 10 ^ length ([a] @ q) + (a * 10 ^ length q + decimalOf q)"
    by (simp only: decimalOf_append [of p "[a] @ q"])
  then show ?thesis
    by simp
qed

lemma coprime_97_pow10: "coprime (97::nat) (10 ^ k)"
proof -
  have "coprime (97::nat) 10"
    by code_simp
  then show ?thesis
    by simp
qed

lemma single_digit_mod97:
  fixes a b :: nat
  assumes "a \<le> b" and "b < 10"
    and "decimalOf (p @ [a] @ q) mod 97 = decimalOf (p @ [b] @ q) mod 97"
  shows "a = b"
proof -
  let ?c = "decimalOf p * 10 ^ Suc (length q) + decimalOf q"
  from assms(3) have "(b * 10 ^ length q + ?c) mod 97 = (a * 10 ^ length q + ?c) mod 97"
    by (simp only: decimalOf_middle)
  moreover have "a * 10 ^ length q + ?c \<le> b * 10 ^ length q + ?c"
    using assms(1) by simp
  ultimately have "97 dvd (b * 10 ^ length q + ?c) - (a * 10 ^ length q + ?c)"
    by (simp only: mod_eq_dvd_iff_nat)
  moreover have "(b * 10 ^ length q + ?c) - (a * 10 ^ length q + ?c) = (b - a) * 10 ^ length q"
    by (simp add: diff_mult_distrib)
  ultimately have "97 dvd (b - a) * 10 ^ length q"
    by simp
  then have "97 dvd b - a"
    using coprime_97_pow10 [of "length q"] by (simp add: coprime_dvd_mult_left_iff)
  moreover have "b - a < 97"
    using assms(2) by simp
  ultimately have "b - a = 0"
    by (meson dvd_imp_le not_le zero_less_iff_neq_zero)
  with assms(1) show ?thesis by simp
qed

lemma single_digit_mod97_any:
  fixes a b :: nat
  assumes "a < 10" and "b < 10"
    and "decimalOf (p @ [a] @ q) mod 97 = decimalOf (p @ [b] @ q) mod 97"
  shows "a = b"
proof (cases "a \<le> b")
  case True
  then show ?thesis using assms(2,3) by (rule single_digit_mod97)
next
  case False
  then have "b \<le> a" by simp
  then have "b = a" using assms(1) assms(3) [symmetric] by (rule single_digit_mod97)
  then show ?thesis by simp
qed

lemma ibanChar_fixed:
  assumes "ibanChar x"
  shows "\<not> isWhitespace x \<and> isAscii x \<and> toUpperCase_ascii x = x"
proof -
  from assms consider "isDigit x" | "x = of_char CHR ''M''" | "x = of_char CHR ''A''"
    unfolding ibanChar_def by blast
  then have "\<not> isWhitespace x \<and> isAscii x \<and> \<not> (97 \<le> unat x \<and> unat x \<le> 122)"
    by cases (auto simp add: isDigit_def isWhitespace_def isAscii_def Let_def)
  then show ?thesis
    by (simp add: toUpperCase_ascii_other)
qed

lemma test_MA_d26_normalized:
  assumes "test_MA_d26 c"
  shows "toUpperCase unicodeUpper (stripWhitespace c) = c"
proof -
  have "\<forall>x \<in> set c. \<not> isWhitespace x \<and> isAscii x \<and> toUpperCase_ascii x = x"
    using test_MA_d26_chars [OF assms] ibanChar_fixed by blast
  then have "filter (\<lambda>x. \<not> isWhitespace x) c = c" and "map toUpperCase_ascii c = c"
    and "list_all isAscii c"
    by (simp_all add: map_idI list_all_iff)
  then show ?thesis
    by (simp add: toUpperCase_def stripWhitespace_def)
qed

lemma test_MA_d26_digit_position:
  assumes "test_MA_d26 c" and "isDigit (c ! i)"
  shows "2 \<le> i"
proof (rule ccontr)
  assume "\<not> 2 \<le> i"
  then have i: "i < 2" by simp
  from assms(1) have t: "take 2 c = str ''MA''"
    by (simp add: test_MA_d26_def)
  have "c ! i = take 2 c ! i"
    using i by simp
  with t i have "c ! i = of_char CHR ''M'' \<or> c ! i = of_char CHR ''A''"
    by (cases i) (auto simp add: less_Suc_eq numeral_2_eq_2 str_def)
  moreover have "\<not> isDigit (of_char CHR ''M'')" "\<not> isDigit (of_char CHR ''A'')"
    by (simp_all add: isDigit_def)
  ultimately show False
    using assms(2) by auto
qed

lemma test_MA_d26_update:
  assumes "test_MA_d26 c" and "2 \<le> i" and "isDigit d"
  shows "test_MA_d26 (c[i := d])"
proof -
  from assms(1) have l: "length c = 28" and t: "take 2 c = str ''MA''"
    and ds: "list_all isDigit (drop 2 c)"
    by (simp_all add: test_MA_d26_def)
  have "take 2 (c[i := d]) = take 2 c"
    using assms(2) by simp
  moreover have "drop 2 (c[i := d]) = (drop 2 c)[i - 2 := d]"
    using assms(2) by (simp add: drop_update_swap)
  moreover have "list_all isDigit ((drop 2 c)[i - 2 := d])"
    using ds assms(3) set_update_subset_insert [of "drop 2 c" "i - 2" d]
    by (auto simp add: list_all_iff)
  ultimately show ?thesis
    using l t by (simp add: test_MA_d26_def)
qed

lemma rearranged_update:
  assumes "length c = 28" and "i < 28"
  shows "drop 4 (c[i := d]) @ take 4 (c[i := d]) =
           (drop 4 c @ take 4 c)[(i + 24) mod 28 := d]
         \<and> (drop 4 c @ take 4 c) ! ((i + 24) mod 28) = c ! i"
proof (cases "i < 4")
  case True
  then have j: "(i + 24) mod 28 = 24 + i"
    by simp
  have "drop 4 (c[i := d]) = drop 4 c" "take 4 (c[i := d]) = (take 4 c)[i := d]"
    using True by (simp_all add: take_update_swap)
  then show ?thesis
    using assms True by (simp add: j list_update_append nth_append)
next
  case False
  then have j: "(i + 24) mod 28 = i - 4"
    using assms(2) by (simp add: mod_if)
  have k: "i - 4 < 24" "4 + (i - 4) = i"
    using assms(2) False by arith+
  have "drop 4 (c[i := d]) = (drop 4 c)[i - 4 := d]" "take 4 (c[i := d]) = take 4 c"
    using False by (simp_all add: drop_update_swap)
  then show ?thesis
    using assms k by (simp add: j list_update_append nth_append)
qed

lemma charDigits_middle:
  assumes "isDigit x"
  shows "concat (map spec_charDigits (p @ [x] @ q)) =
    concat (map spec_charDigits p) @ [digitValue x] @ concat (map spec_charDigits q)"
  using assms by (simp add: spec_charDigits_def)

lemma digitValue_less: "isDigit x \<Longrightarrow> digitValue x < 10"
  unfolding isDigit_def digitValue_def Let_def by arith

lemma digitValue_inj:
  assumes "isDigit x" and "isDigit y" and "digitValue x = digitValue y"
  shows "x = y"
proof -
  from assms have "unat x = unat y"
    unfolding isDigit_def digitValue_def by arith
  then show ?thesis
    by (simp only: word_unat_eq_iff)
qed

lemma remainder_changes:
  assumes "isDigit x" and "isDigit d" and "d \<noteq> x"
  shows "spec_mod97 (concat (map spec_charDigits (p @ [d] @ q))) \<noteq>
         spec_mod97 (concat (map spec_charDigits (p @ [x] @ q)))"
proof
  assume "spec_mod97 (concat (map spec_charDigits (p @ [d] @ q))) =
         spec_mod97 (concat (map spec_charDigits (p @ [x] @ q)))"
  then have "decimalOf (concat (map spec_charDigits p) @ [digitValue d] @
        concat (map spec_charDigits q)) mod 97 =
      decimalOf (concat (map spec_charDigits p) @ [digitValue x] @
        concat (map spec_charDigits q)) mod 97"
    by (simp only: spec_mod97_decimalOf charDigits_middle [OF assms(1)]
        charDigits_middle [OF assms(2)])
  then have "digitValue d = digitValue x"
    using digitValue_less [OF assms(2)] digitValue_less [OF assms(1)]
    by (rule single_digit_mod97_any [rotated 2])
  with assms show False
    using digitValue_inj by blast
qed

text \<open>
  Claim C4. When \<open>isValidIBAN\<close> accepts an IBAN, replacing any single digit of the
  normalised string by a different digit makes \<open>isValidIBAN\<close> return \<open>false\<close>: the
  difference of the two numbers is a nonzero digit times a power of ten, which 97 does
  not divide.
\<close>

theorem iban_single_digit_mutation:
  assumes "isValidIBAN unicodeUpper banks (JString s) = Normal True"
    and "i < length (toUpperCase unicodeUpper (stripWhitespace s))"
    and "isDigit (toUpperCase unicodeUpper (stripWhitespace s) ! i)"
    and "isDigit d"
    and "d \<noteq> toUpperCase unicodeUpper (stripWhitespace s) ! i"
  shows "isValidIBAN unicodeUpper banks (JString ((toUpperCase unicodeUpper (stripWhitespace s))[i := d])) = Normal False"
proof -
  define c where "c = toUpperCase unicodeUpper (stripWhitespace s)"
  define r where "r = drop 4 c @ take 4 c"
  define j where "j = (i + 24) mod 28"
  from assms(1) have t: "test_MA_d26 c" and one: "spec_ibanRemainder c = 1"
    by (simp_all add: isValidIBAN_find c_def)
  from t have l: "length c = 28"
    by (simp add: test_MA_d26_def)
  from assms(2) l have i: "i < 28"
    by (simp add: c_def)
  have i2: "2 \<le> i"
    using t assms(3) unfolding c_def [symmetric] by (rule test_MA_d26_digit_position)
  have t': "test_MA_d26 (c[i := d])"
    using t i2 assms(4) by (rule test_MA_d26_update)
  have upd: "drop 4 (c[i := d]) @ take 4 (c[i := d]) = r[j := d]" and nth: "r ! j = c ! i"
    using rearranged_update [OF l i, of d] by (simp_all add: r_def j_def)
  have jl: "j < length r"
    using l by (simp add: r_def j_def)
  define p q where "p = take j r" and "q = drop (Suc j) r"
  have "r = take j r @ r ! j # drop (Suc j) r"
    using jl by (rule id_take_nth_drop)
  then have r: "r = p @ [c ! i] @ q"
    by (simp add: p_def q_def nth)
  have r': "r[j := d] = p @ [d] @ q"
    using jl by (simp add: p_def q_def upd_conv_take_nth_drop)
  have e1: "spec_ibanRemainder (c[i := d]) =
      spec_mod97 (concat (map spec_charDigits (p @ [d] @ q)))"
    by (simp only: spec_ibanRemainder_def upd r')
  have "spec_ibanRemainder c = spec_mod97 (concat (map spec_charDigits r))"
    by (simp only: spec_ibanRemainder_def r_def)
  then have e2: "spec_ibanRemainder c =
      spec_mod97 (concat (map spec_charDigits (p @ [c ! i] @ q)))"
    by (simp only: r [symmetric])
  have "spec_mod97 (concat (map spec_charDigits (p @ [d] @ q))) \<noteq>
      spec_mod97 (concat (map spec_charDigits (p @ [c ! i] @ q)))"
    using assms(3,4,5) unfolding c_def [symmetric] by (rule remainder_changes)
  then have "spec_ibanRemainder (c[i := d]) \<noteq> spec_ibanRemainder c"
    by (simp only: e1 e2 not_False_eq_True)
  with one have "spec_ibanRemainder (c[i := d]) \<noteq> 1"
    by simp
  then have "isValidIBAN unicodeUpper banks (JString (c[i := d])) = Normal False"
    by (simp add: isValidIBAN_find test_MA_d26_normalized [OF t'])
  then show ?thesis
    by (simp only: c_def)
qed

theorem iban_single_digit_mutation_witness:
  "isValidIBAN asciiOnly exampleBanks
     (JString (str ''ma64 0115 1900 0001 2050 0053 4921'')) = Normal True
   \<and> 27 < length (toUpperCase asciiOnly
               (stripWhitespace (str ''ma64 0115 1900 0001 2050 0053 4921'')))
   \<and> isDigit (toUpperCase asciiOnly
               (stripWhitespace (str ''ma64 0115 1900 0001 2050 0053 4921'')) ! 27)
   \<and> isDigit (of_char CHR ''2'')
   \<and> of_char CHR ''2'' \<noteq>
       toUpperCase asciiOnly (stripWhitespace (str ''ma64 0115 1900 0001 2050 0053 4921'')) ! 27
   \<and> isValidIBAN asciiOnly exampleBanks
         (JString (str ''MA64011519000001205000534922'')) = Normal False"
proof -
  have t: "test_MA_d26 (str ''MA64011519000001205000534921'')"
    by (simp add: test_MA_d26_def isDigit_def str_def)
  have f: "findBank exampleBanks (substring 4 7 (str ''MA64011519000001205000534921'')) =
      Some bankA"
    by (simp add: substring_def findBank_def exampleBanks_def bankA_def str_def)
  have a: "isValidIBAN asciiOnly exampleBanks
      (JString (str ''ma64 0115 1900 0001 2050 0053 4921'')) = Normal True"
    using t by (simp add: isValidIBAN_find example_iban_clean example_iban_remainder f bankA_def)
  have u: "(str ''MA64011519000001205000534921'')[27 := of_char CHR ''2''] =
      str ''MA64011519000001205000534922''"
    by (simp add: str_def)
  have h2: "27 < length (toUpperCase asciiOnly
      (stripWhitespace (str ''ma64 0115 1900 0001 2050 0053 4921'')))"
    unfolding example_iban_clean by (simp add: str_def)
  have h3: "isDigit (toUpperCase asciiOnly
      (stripWhitespace (str ''ma64 0115 1900 0001 2050 0053 4921'')) ! 27)"
    unfolding example_iban_clean by (simp add: isDigit_def str_def)
  have h4: "isDigit (of_char CHR ''2'')"
    by (simp add: isDigit_def)
  have h5: "of_char CHR ''2'' \<noteq>
      toUpperCase asciiOnly (stripWhitespace (str ''ma64 0115 1900 0001 2050 0053 4921'')) ! 27"
    unfolding example_iban_clean by (simp add: str_def)
  have "isValidIBAN asciiOnly exampleBanks
      (JString ((toUpperCase asciiOnly
        (stripWhitespace (str ''ma64 0115 1900 0001 2050 0053 4921'')))
        [27 := of_char CHR ''2''])) = Normal False"
    using a h2 h3 h4 h5 by (rule iban_single_digit_mutation)
  then have b: "isValidIBAN asciiOnly exampleBanks
      (JString (str ''MA64011519000001205000534922'')) = Normal False"
    by (simp only: example_iban_clean u)
  from a h2 h3 h4 h5 b show ?thesis
    by blast
qed

end
